theory Spec2Isabelle
  imports Main "HOL-Library.Char_ord" "HOL-Library.List_Lexorder" "HOL-Library.Product_Lexorder"
begin

section \<open>The migration state table study: data model\<close>

text \<open>
  The script \<^verbatim>\<open>mig_state_study.py\<close> reads the table \<^verbatim>\<open>vfio_from_fsm_table\<close> into the
  dictionary \<^verbatim>\<open>all_arcs\<close>, keyed by pairs of state names, and derives sets of pairs and
  lists of state names from it.  State names are strings; the dictionary is a finite map;
  the Python sets are sets.  An exception that ends the script is a value of \<open>error\<close>.
\<close>

type_synonym state = string
type_synonym pair = "state \<times> state"
type_synonym path = "state list"
type_synonym table = "pair \<rightharpoonup> state"

datatype error = KeyError | AssertionError | NodeNotFound | NetworkXNoPath

subsection \<open>Lines 42 to 52: states, pairs, blocked transitions, arcs\<close>

definition all_states :: "table \<Rightarrow> state set" where
  "all_states all_arcs = fst ` dom all_arcs"

definition all_state_pairs :: "table \<Rightarrow> pair set" where
  "all_state_pairs all_arcs =
     {(c, n). (c, n) \<in> all_states all_arcs \<times> all_states all_arcs \<and> c \<noteq> n}"

text \<open>The comprehension of line 45 looks every pair up; a missing key raises.\<close>

definition blocked_transitions :: "table \<Rightarrow> error + pair set" where
  "blocked_transitions all_arcs =
     (if \<exists>p \<in> all_state_pairs all_arcs. all_arcs p = None then Inl KeyError
      else Inr {(c, n). (c, n) \<in> all_state_pairs all_arcs \<and> c \<noteq> n
                  \<and> all_arcs (c, n) = Some ''ERROR''})"

text \<open>The comprehension of line 47 looks up the pairs that pass its filter.\<close>

definition fsm_arcs :: "table \<Rightarrow> pair set \<Rightarrow> error + pair set" where
  "fsm_arcs all_arcs blocked =
     (if \<exists>p \<in> all_state_pairs all_arcs - blocked. all_arcs p = None then Inl KeyError
      else Inr ((\<lambda>(c, n). (c, the (all_arcs (c, n)))) ` (all_state_pairs all_arcs - blocked)))"

text \<open>The loop of line 51 asserts that every pair is a key.\<close>

definition table_is_complete :: "table \<Rightarrow> error + unit" where
  "table_is_complete all_arcs =
     (if \<exists>p \<in> all_state_pairs all_arcs. p \<notin> dom all_arcs then Inl AssertionError
      else Inr ())"

subsection \<open>Lines 55 to 61: the combination paths\<close>

text \<open>
  The \<^verbatim>\<open>while\<close> loop of line 58 for one target \<open>n\<close>.  It has no bound, so it is a partial
  function: \<open>None\<close> is the loop that never ends.
\<close>

partial_function (option) walk :: "table \<Rightarrow> state \<Rightarrow> path \<Rightarrow> (error + path) option" where
  "walk all_arcs n path =
     (if last path = n then Some (Inr path)
      else case all_arcs (last path, n) of
             None \<Rightarrow> Some (Inl KeyError)
           | Some s \<Rightarrow>
               if ''ERROR'' \<in> set (path @ [s]) then Some (Inl AssertionError)
               else walk all_arcs n (path @ [s]))"


text \<open>
  The \<^verbatim>\<open>for\<close> loop of line 56 runs over a Python set, whose order is not fixed: the list
  \<open>order\<close> is the order in which the run meets the pairs.  The first exception ends the
  loop; a walk that never ends leaves the loop without result.
\<close>

definition combination_pairs :: "table \<Rightarrow> pair set \<Rightarrow> pair set \<Rightarrow> pair set" where
  "combination_pairs all_arcs arcs blocked = all_state_pairs all_arcs - arcs - blocked"

fun combination_loop ::
  "table \<Rightarrow> pair list \<Rightarrow> (pair \<rightharpoonup> path) \<Rightarrow> (error + (pair \<rightharpoonup> path)) option" where
  "combination_loop all_arcs [] combination_paths = Some (Inr combination_paths)"
| "combination_loop all_arcs ((c, n) # order) combination_paths =
     (case walk all_arcs n [c] of
        None \<Rightarrow> None
      | Some (Inl e) \<Rightarrow> Some (Inl e)
      | Some (Inr path) \<Rightarrow> combination_loop all_arcs order (combination_paths((c, n) \<mapsto> path)))"

subsection \<open>Lines 63 to 66: all paths\<close>

definition all_paths :: "(pair \<rightharpoonup> path) \<Rightarrow> pair set \<Rightarrow> pair set \<Rightarrow> (pair \<rightharpoonup> path)" where
  "all_paths combination_paths arcs blocked =
     (\<lambda>(c, n). if (c, n) \<in> arcs - blocked then Some [c, n] else combination_paths (c, n))"

subsection \<open>Lines 85 to 99: shortest paths of the graph of arcs\<close>

text \<open>
  \<^verbatim>\<open>networkx.DiGraph(list(fsm_arcs))\<close> is the directed graph whose edges are the arcs and
  whose nodes are their end points.  The library function \<^verbatim>\<open>all_shortest_paths\<close> is not
  part of the script; it is taken by its contract: all paths from the source to the target
  with the least number of edges, \<^verbatim>\<open>NodeNotFound\<close> for a source that is no node,
  \<^verbatim>\<open>NetworkXNoPath\<close> when the target is not reached.  The paths with \<open>k\<close> edges are
  enumerated for \<open>k = 0, 1, \<dots>\<close>; a path without repeated node has fewer edges than the
  graph has nodes, which bounds the search.
\<close>

definition nodes :: "pair set \<Rightarrow> state set" where
  "nodes arcs = fst ` arcs \<union> snd ` arcs"

fun walks :: "pair set \<Rightarrow> state \<Rightarrow> nat \<Rightarrow> path set" where
  "walks arcs c 0 = {[c]}"
| "walks arcs c (Suc k) =
     (\<lambda>(p, e). p @ [snd e]) ` {(p, e). (p, e) \<in> walks arcs c k \<times> arcs \<and> last p = fst e}"

definition paths_to :: "pair set \<Rightarrow> state \<Rightarrow> state \<Rightarrow> nat \<Rightarrow> path set" where
  "paths_to arcs c n k = {p. p \<in> walks arcs c k \<and> last p = n}"

fun search :: "pair set \<Rightarrow> state \<Rightarrow> state \<Rightarrow> nat \<Rightarrow> nat \<Rightarrow> path set option" where
  "search arcs c n k 0 = None"
| "search arcs c n k (Suc fuel) =
     (if paths_to arcs c n k \<noteq> {} then Some (paths_to arcs c n k)
      else search arcs c n (Suc k) fuel)"

definition all_shortest_paths :: "pair set \<Rightarrow> state \<Rightarrow> state \<Rightarrow> error + path set" where
  "all_shortest_paths arcs c n =
     (if c \<notin> nodes arcs then Inl NodeNotFound
      else case search arcs c n 0 (card (nodes arcs)) of
             None \<Rightarrow> Inl NetworkXNoPath
           | Some ps \<Rightarrow> Inr ps)"

text \<open>
  The body of the loop of line 88 for one pair.  The list \<^verbatim>\<open>paths\<close> holds the shortest
  paths in the library's order; the script sorts it, or takes its only element.  A pair
  with one shortest path prints nothing (\<open>None\<close>); a pair with another number of them prints
  each path and whether it is the selected one.
\<close>

definition check_pair ::
  "pair set \<Rightarrow> (pair \<rightharpoonup> path) \<Rightarrow> (pair \<rightharpoonup> path) \<Rightarrow> pair \<Rightarrow> error + (path \<times> bool) list option" where
  "check_pair arcs combination_paths all_paths_d cn =
     (case all_shortest_paths arcs (fst cn) (snd cn) of
        Inl e \<Rightarrow> Inl e
      | Inr ps \<Rightarrow>
          let paths = sorted_list_of_set ps in
          if length paths \<noteq> 1
          then Inr (Some (map (\<lambda>path. (path, Some path = combination_paths cn)) paths))
          else (case all_paths_d cn of
                  None \<Rightarrow> Inl KeyError
                | Some q \<Rightarrow> if paths ! 0 = q then Inr None else Inl AssertionError))"

fun check_loop ::
  "pair set \<Rightarrow> (pair \<rightharpoonup> path) \<Rightarrow> (pair \<rightharpoonup> path) \<Rightarrow> pair list
     \<Rightarrow> error + (pair \<times> (path \<times> bool) list) list" where
  "check_loop arcs combination_paths all_paths_d [] = Inr []"
| "check_loop arcs combination_paths all_paths_d (cn # rest) =
     (case check_pair arcs combination_paths all_paths_d cn of
        Inl e \<Rightarrow> Inl e
      | Inr r \<Rightarrow>
          (case check_loop arcs combination_paths all_paths_d rest of
             Inl e \<Rightarrow> Inl e
           | Inr rs \<Rightarrow> Inr ((case r of None \<Rightarrow> [] | Some tied \<Rightarrow> [(cn, tied)]) @ rs)))"

subsection \<open>Lines 101 to 109: the error unwind study\<close>

datatype unwind_result = Unrecoverable state | Unwind path

definition unwind :: "(pair \<rightharpoonup> path) \<Rightarrow> path \<Rightarrow> unwind_result list" where
  "unwind all_paths_d path =
     map (\<lambda>err. case all_paths_d (err, hd path) of
                  None \<Rightarrow> Unrecoverable err
                | Some err_path \<Rightarrow> Unwind err_path)
         (butlast (tl path))"

definition unwind_study :: "(pair \<rightharpoonup> path) \<Rightarrow> (pair \<rightharpoonup> path) \<Rightarrow> (path \<times> unwind_result list) list" where
  "unwind_study combination_paths all_paths_d =
     map (\<lambda>path. (path, unwind all_paths_d path)) (sorted_list_of_set (ran combination_paths))"

subsection \<open>Lines 125 and 126: the arcs of the mlx5 driver\<close>

definition mlx5_report :: "pair set \<Rightarrow> pair set \<Rightarrow> pair set \<times> pair set" where
  "mlx5_report mlx5_arcs arcs = (mlx5_arcs - arcs, arcs - mlx5_arcs)"

subsection \<open>The whole run\<close>

record report =
  r_fsm_arcs :: "pair set"
  r_blocked_transitions :: "pair set"
  r_combination_paths :: "pair \<rightharpoonup> path"
  r_all_paths :: "pair \<rightharpoonup> path"
  r_ambiguity :: "(pair \<times> (path \<times> bool) list) list"
  r_unwind :: "(path \<times> unwind_result list) list"

definition study :: "table \<Rightarrow> pair list \<Rightarrow> (error + report) option" where
  "study all_arcs order =
     (case blocked_transitions all_arcs of
        Inl e \<Rightarrow> Some (Inl e)
      | Inr blocked \<Rightarrow>
     (case fsm_arcs all_arcs blocked of
        Inl e \<Rightarrow> Some (Inl e)
      | Inr arcs \<Rightarrow>
     (case table_is_complete all_arcs of
        Inl e \<Rightarrow> Some (Inl e)
      | Inr _ \<Rightarrow>
     (case combination_loop all_arcs order Map.empty of
        None \<Rightarrow> None
      | Some (Inl e) \<Rightarrow> Some (Inl e)
      | Some (Inr combination_paths) \<Rightarrow>
     (let all_paths_d = all_paths combination_paths arcs blocked in
      case check_loop arcs combination_paths all_paths_d
             (sorted_list_of_set (all_state_pairs all_arcs - blocked)) of
        Inl e \<Rightarrow> Some (Inl e)
      | Inr amb \<Rightarrow>
          Some (Inr \<lparr> r_fsm_arcs = arcs, r_blocked_transitions = blocked,
                     r_combination_paths = combination_paths, r_all_paths = all_paths_d,
                     r_ambiguity = amb,
                     r_unwind = unwind_study combination_paths all_paths_d \<rparr>))))))"


subsection \<open>Observations of a run\<close>

definition run_completes :: "table \<Rightarrow> pair list \<Rightarrow> bool" where
  "run_completes all_arcs order =
     (case study all_arcs order of Some (Inr r) \<Rightarrow> True | _ \<Rightarrow> False)"

definition canonical_path :: "table \<Rightarrow> pair list \<Rightarrow> pair \<Rightarrow> path option" where
  "canonical_path all_arcs order cn =
     (case study all_arcs order of Some (Inr r) \<Rightarrow> r_all_paths r cn | _ \<Rightarrow> None)"

subsection \<open>Predicates on paths\<close>

text \<open>
  A path follows the table towards \<open>n\<close> when each of its states but the last is not \<open>n\<close>
  and is followed by the table's entry for it and \<open>n\<close>: the path is what the loop of line 58
  has appended.
\<close>

fun follows :: "table \<Rightarrow> state \<Rightarrow> path \<Rightarrow> bool" where
  "follows t n (a # b # xs) = (a \<noteq> n \<and> t (a, n) = Some b \<and> follows t n (b # xs))"
| "follows t n xs = True"

text \<open>A walk in a graph: a non-empty list of states, each step an arc.\<close>

fun is_walk :: "pair set \<Rightarrow> path \<Rightarrow> bool" where
  "is_walk arcs [] = False"
| "is_walk arcs [a] = True"
| "is_walk arcs (a # b # xs) = ((a, b) \<in> arcs \<and> is_walk arcs (b # xs))"

text \<open>The walks of a graph given by a list of arcs, as a list, for evaluation.\<close>

fun walks_list :: "pair list \<Rightarrow> state \<Rightarrow> nat \<Rightarrow> path list" where
  "walks_list es c 0 = [[c]]"
| "walks_list es c (Suc k) =
     concat (map (\<lambda>p. map (\<lambda>e. p @ [snd e]) (filter (\<lambda>e. fst e = last p) es))
                 (walks_list es c k))"

fun search_list :: "pair list \<Rightarrow> state \<Rightarrow> state \<Rightarrow> nat \<Rightarrow> nat \<Rightarrow> path list option" where
  "search_list es c n k 0 = None"
| "search_list es c n k (Suc fuel) =
     (let ps = filter (\<lambda>p. last p = n) (walks_list es c k)
      in if ps \<noteq> [] then Some ps else search_list es c n (Suc k) fuel)"

subsection \<open>Example tables\<close>

text \<open>The table of three states with two combination transitions.\<close>

definition t_three :: table where
  "t_three = map_of
     [((''A'', ''B''), ''B''), ((''A'', ''C''), ''B''),
      ((''B'', ''A''), ''A''), ((''B'', ''C''), ''C''),
      ((''C'', ''A''), ''B''), ((''C'', ''B''), ''B'')]"

text \<open>A table whose entries towards \<open>C\<close> send \<open>A\<close> to \<open>B\<close> and \<open>B\<close> back to \<open>A\<close>.\<close>

definition t_cycle :: table where
  "t_cycle = map_of
     [((''A'', ''B''), ''B''), ((''A'', ''C''), ''B''),
      ((''B'', ''A''), ''A''), ((''B'', ''C''), ''A''),
      ((''C'', ''A''), ''A''), ((''C'', ''B''), ''B'')]"

text \<open>A table whose row \<open>A\<close> has the entries for \<open>B\<close> and \<open>C\<close> swapped.\<close>

definition t_swap :: table where
  "t_swap = map_of
     [((''A'', ''B''), ''C''), ((''A'', ''C''), ''B''),
      ((''B'', ''A''), ''A''), ((''B'', ''C''), ''C''),
      ((''C'', ''A''), ''A''), ((''C'', ''B''), ''B'')]"

text \<open>
  A table whose entries lead from \<open>A\<close> to \<open>C\<close> and to \<open>F\<close>, meet \<^verbatim>\<open>ERROR\<close> on the way
  to \<open>D\<close>, and go round between \<open>A\<close> and \<open>B\<close> on the way to \<open>E\<close>.
\<close>

definition t_walks :: table where
  "t_walks = map_of
     [((''A'', ''C''), ''B''), ((''B'', ''C''), ''C''),
      ((''A'', ''F''), ''B''), ((''B'', ''F''), ''C''), ((''C'', ''F''), ''F''),
      ((''A'', ''D''), ''B''), ((''B'', ''D''), ''ERROR''),
      ((''A'', ''E''), ''B''), ((''B'', ''E''), ''A'')]"


text \<open>
  A table of five states: from \<open>A\<close> to \<open>D\<close> it goes over \<open>E\<close> and \<open>F\<close>, every other
  transition but the one from \<open>E\<close> to \<open>D\<close> is direct.
\<close>

definition t_tie :: table where
  "t_tie = map_of
     [((''A'', ''D''), ''E''), ((''A'', ''E''), ''E''), ((''A'', ''F''), ''F''), ((''A'', ''G''), ''G''),
      ((''D'', ''A''), ''A''), ((''D'', ''E''), ''E''), ((''D'', ''F''), ''F''), ((''D'', ''G''), ''G''),
      ((''E'', ''A''), ''A''), ((''E'', ''D''), ''F''), ((''E'', ''F''), ''F''), ((''E'', ''G''), ''G''),
      ((''F'', ''A''), ''A''), ((''F'', ''D''), ''D''), ((''F'', ''E''), ''E''), ((''F'', ''G''), ''G''),
      ((''G'', ''A''), ''A''), ((''G'', ''D''), ''D''), ((''G'', ''E''), ''E''), ((''G'', ''F''), ''F'')]"

definition arcs_tie :: "pair set" where
  "arcs_tie = set
     [(''A'', ''E''), (''A'', ''F''), (''A'', ''G''),
      (''D'', ''A''), (''D'', ''E''), (''D'', ''F''), (''D'', ''G''),
      (''E'', ''A''), (''E'', ''F''), (''E'', ''G''),
      (''F'', ''A''), (''F'', ''D''), (''F'', ''E''), (''F'', ''G''),
      (''G'', ''A''), (''G'', ''D''), (''G'', ''E''), (''G'', ''F'')]"

text \<open>A graph with two paths of two arcs from \<open>A\<close> to \<open>D\<close>.\<close>

definition arcs_diamond :: "pair set" where
  "arcs_diamond = set [(''A'', ''B''), (''B'', ''D''), (''A'', ''C''), (''C'', ''D'')]"

section \<open>Properties\<close>

subsection \<open>The first derivations\<close>

lemma blocked_transitions_Inr:
  "blocked_transitions t = Inr blocked \<Longrightarrow>
     (\<forall>p \<in> all_state_pairs t. t p \<noteq> None) \<and>
     blocked = {(c, n). (c, n) \<in> all_state_pairs t \<and> t (c, n) = Some ''ERROR''}"
  by (auto simp: blocked_transitions_def all_state_pairs_def split: if_splits)

lemma fsm_arcs_Inr:
  "blocked_transitions t = Inr blocked \<Longrightarrow>
     fsm_arcs t blocked = Inr ((\<lambda>(c, n). (c, the (t (c, n)))) ` (all_state_pairs t - blocked))"
  using blocked_transitions_Inr[of t blocked] by (auto simp: fsm_arcs_def)

lemma table_is_complete_after_blocked:
  "blocked_transitions t = Inr blocked \<Longrightarrow> table_is_complete t = Inr ()"
  using blocked_transitions_Inr[of t blocked] by (auto simp: table_is_complete_def)

lemma in_fsm_arcs_iff:
  assumes "blocked_transitions t = Inr blocked" "fsm_arcs t blocked = Inr arcs"
  shows "(c, s) \<in> arcs \<longleftrightarrow> (\<exists>n. (c, n) \<in> all_state_pairs t \<and> t (c, n) = Some s \<and> s \<noteq> ''ERROR'')"
proof -
  have a: "arcs = (\<lambda>(c, n). (c, the (t (c, n)))) ` (all_state_pairs t - blocked)"
    using fsm_arcs_Inr[OF assms(1)] assms(2) by simp
  show ?thesis
    unfolding a using blocked_transitions_Inr[OF assms(1)]
    by (force simp: image_iff)
qed

lemma finite_all_state_pairs: "finite (dom t) \<Longrightarrow> finite (all_state_pairs t)"
proof -
  assume "finite (dom t)"
  then have "finite (all_states t \<times> all_states t)" by (simp add: all_states_def)
  moreover have "all_state_pairs t \<subseteq> all_states t \<times> all_states t"
    by (auto simp: all_state_pairs_def)
  ultimately show ?thesis by (rule rev_finite_subset)
qed

lemma finite_fsm_arcs:
  "finite (dom t) \<Longrightarrow> blocked_transitions t = Inr blocked \<Longrightarrow> fsm_arcs t blocked = Inr arcs
     \<Longrightarrow> finite arcs"
  using fsm_arcs_Inr[of t blocked] finite_all_state_pairs[of t] by auto

subsection \<open>The walk through the table\<close>

lemma follows_snoc:
  "path \<noteq> [] \<Longrightarrow> follows t n (path @ [s]) = (follows t n path \<and> last path \<noteq> n \<and> t (last path, n) = Some s)"
  by (induction t n path rule: follows.induct) auto

lemma walk_inv_aux:
  "walk t n path = Some r \<Longrightarrow>
     (\<forall>p. r = Inr p \<longrightarrow> path \<noteq> [] \<longrightarrow> follows t n path \<longrightarrow>
         (\<exists>ys. p = path @ ys) \<and> last p = n \<and> follows t n p \<and> (p \<noteq> path \<longrightarrow> ''ERROR'' \<notin> set p))"
proof (induction t n path r rule: walk.raw_induct[rotated 1, consumes 1])
  case (1 walk' t n path r)
  show ?case
  proof (intro allI impI)
    fix p assume r: "r = Inr p" and ne: "path \<noteq> []" and fo: "follows t n path"
    show "(\<exists>ys. p = path @ ys) \<and> last p = n \<and> follows t n p \<and> (p \<noteq> path \<longrightarrow> ''ERROR'' \<notin> set p)"
    proof (cases "last path = n")
      case True
      with 1(2) r fo show ?thesis by auto
    next
      case False
      with 1(2) r obtain s where s: "t (last path, n) = Some s" "''ERROR'' \<notin> set (path @ [s])"
        "walk' t n (path @ [s]) = Some (Inr p)"
        by (auto split: option.splits if_splits)
      have f: "follows t n (path @ [s])" using ne fo False s(1) by (simp add: follows_snoc)
      from 1(1)[OF s(3)] f have "(\<exists>ys. p = (path @ [s]) @ ys) \<and> last p = n \<and> follows t n p
          \<and> (p \<noteq> path @ [s] \<longrightarrow> ''ERROR'' \<notin> set p)" by simp
      with s(2) show ?thesis by auto
    qed
  qed
qed

lemma follows_nth:
  "follows t n p \<Longrightarrow> Suc i < length p \<Longrightarrow> p ! i \<noteq> n \<and> t (p ! i, n) = Some (p ! Suc i)"
proof (induction t n p arbitrary: i rule: follows.induct)
  case (1 t n a b xs)
  then show ?case by (cases i) auto
qed auto

lemma follows_shift:
  "follows t n p \<Longrightarrow> p ! i = p ! j \<Longrightarrow> j + d < length p \<Longrightarrow> i < j \<Longrightarrow> p ! (i + d) = p ! (j + d)"
proof (induction d)
  case 0 then show ?case by simp
next
  case (Suc d)
  then have eq: "p ! (i + d) = p ! (j + d)" by simp
  have a: "t (p ! (i + d), n) = Some (p ! Suc (i + d))" using follows_nth[OF Suc.prems(1), of "i + d"] Suc.prems by simp
  have b: "t (p ! (j + d), n) = Some (p ! Suc (j + d))" using follows_nth[OF Suc.prems(1), of "j + d"] Suc.prems by simp
  from a b eq show ?case by simp
qed

lemma follows_distinct:
  assumes "follows t n p" "last p = n"
  shows "distinct p"
proof (rule ccontr)
  assume "\<not> distinct p"
  then obtain i j where ij: "i < j" "j < length p" "p ! i = p ! j"
    by (metis distinct_conv_nth linorder_neqE_nat)
  define d where "d = length p - 1 - j"
  have jd: "j + d = length p - 1" using ij by (simp add: d_def)
  have "p ! (i + d) = p ! (j + d)" using follows_shift[OF assms(1) ij(3) _ ij(1), of d] jd ij by simp
  moreover have "p ! (j + d) = n" using assms(2) jd ij by (metis last_conv_nth list.size(3) not_less_zero)
  moreover have "p ! (i + d) \<noteq> n" using follows_nth[OF assms(1), of "i + d"] jd ij by simp
  ultimately show False by simp
qed


lemma walk_closed_diverges_aux:
  assumes cl: "\<forall>s\<in>S. \<exists>s'\<in>S. t (s, n) = Some s'" and nS: "n \<notin> S" and eS: "''ERROR'' \<notin> S"
  shows "walk t' n' path = Some r \<Longrightarrow>
     \<not> (t' = t \<and> n' = n \<and> path \<noteq> [] \<and> last path \<in> S \<and> ''ERROR'' \<notin> set path)"
proof (induction t' n' path r rule: walk.raw_induct[rotated 1, consumes 1])
  case (1 walk' t' n' path r)
  show ?case
  proof
    assume a: "t' = t \<and> n' = n \<and> path \<noteq> [] \<and> last path \<in> S \<and> ''ERROR'' \<notin> set path"
    then obtain s where s: "s \<in> S" "t (last path, n) = Some s" using cl by blast
    have "last path \<noteq> n" using a nS by auto
    moreover have "''ERROR'' \<notin> set (path @ [s])" using a s(1) eS by auto
    ultimately have "walk' t n (path @ [s]) = Some r" using 1(2) a s(2) by simp
    from 1(1)[OF this] s(1) a eS show False by auto
  qed
qed

lemma walk_closed_diverges:
  assumes "\<forall>s\<in>S. \<exists>s'\<in>S. t (s, n) = Some s'" "n \<notin> S" "''ERROR'' \<notin> S"
    "path \<noteq> []" "last path \<in> S" "''ERROR'' \<notin> set path"
  shows "walk t n path = None"
proof (cases "walk t n path")
  case (Some r)
  from walk_closed_diverges_aux[OF assms(1-3) Some] assms(4-6) show ?thesis by simp
qed simp

lemma walk_repeat_diverges:
  assumes fo: "follows t n path" and nd: "\<not> distinct path" and ne: "''ERROR'' \<notin> set path"
  shows "walk t n path = None"
proof -
  obtain i j where ij: "i < j" "j < length path" "path ! i = path ! j"
    using nd by (metis distinct_conv_nth linorder_neqE_nat)
  define d where "d = length path - 1 - j"
  have jd: "j + d = length path - 1" using ij by (simp add: d_def)
  have pne: "path \<noteq> []" using ij by auto
  have "path ! (i + d) = path ! (j + d)"
    using follows_shift[OF fo ij(3) _ ij(1), of d] jd ij by simp
  then have lst: "last path = path ! (i + d)" using jd pne by (simp add: last_conv_nth)
  have idl: "Suc (i + d) < length path" using jd ij by simp
  have step: "\<And>k. Suc k < length path \<Longrightarrow> path ! k \<noteq> n \<and> t (path ! k, n) = Some (path ! Suc k)"
    using follows_nth[OF fo] by blast
  have cl: "\<forall>s\<in>set path. \<exists>s'\<in>set path. t (s, n) = Some s'"
  proof
    fix s assume "s \<in> set path"
    then obtain k where k: "k < length path" "path ! k = s" by (auto simp: in_set_conv_nth)
    show "\<exists>s'\<in>set path. t (s, n) = Some s'"
    proof (cases "Suc k < length path")
      case True
      with step[OF True] k show ?thesis by (metis nth_mem)
    next
      case False
      then have "s = last path" using k pne by (metis Suc_lessI diff_Suc_1 last_conv_nth)
      with lst step[OF idl] idl show ?thesis by (metis nth_mem)
    qed
  qed
  have nn: "n \<notin> set path"
  proof
    assume "n \<in> set path"
    then obtain k where k: "k < length path" "path ! k = n" by (auto simp: in_set_conv_nth)
    show False
    proof (cases "Suc k < length path")
      case True
      with step[OF True] k show False by simp
    next
      case False
      then have "n = last path" using k pne by (metis Suc_lessI diff_Suc_1 last_conv_nth)
      with lst step[OF idl] show False by simp
    qed
  qed
  show ?thesis
    by (rule walk_closed_diverges[OF cl nn ne pne _ ne]) (simp add: pne)
qed

lemma walk_blocked:
  "last q \<noteq> n \<Longrightarrow> t (last q, n) = Some ''ERROR'' \<Longrightarrow> walk t n q = Some (Inl AssertionError)"
  by (subst walk.simps) simp

lemma walk_result:
  assumes "walk t n [c] = Some (Inr p)" "c \<noteq> n"
  shows "hd p = c \<and> last p = n \<and> follows t n p \<and> ''ERROR'' \<notin> set p \<and> distinct p \<and> 2 \<le> length p"
proof -
  from walk_inv_aux[OF assms(1)] have
    a: "(\<exists>ys. p = [c] @ ys) \<and> last p = n \<and> follows t n p \<and> (p \<noteq> [c] \<longrightarrow> ''ERROR'' \<notin> set p)"
    by simp
  then have "p \<noteq> [c]" using assms(2) by auto
  with a follows_distinct[of t n p] show ?thesis by (cases p) (auto simp: Suc_le_eq)
qed

text \<open>The loop reaches every path that follows the table from \<open>[c]\<close>.\<close>

lemma follows_append:
  "follows t n (q @ s # ys) \<Longrightarrow> q \<noteq> [] \<Longrightarrow> last q \<noteq> n \<and> t (last q, n) = Some s"
  using follows_nth[of t n "q @ s # ys" "length q - 1"]
  by (cases q rule: rev_cases) (auto simp: nth_append)

lemma walk_extend:
  "q \<noteq> [] \<Longrightarrow> follows t n (q @ ys) \<Longrightarrow> (ys \<noteq> [] \<longrightarrow> ''ERROR'' \<notin> set (q @ ys)) \<Longrightarrow>
     walk t n q = walk t n (q @ ys)"
proof (induction ys arbitrary: q)
  case Nil then show ?case by simp
next
  case (Cons s ys)
  from follows_append[OF Cons.prems(2,1)] have st: "last q \<noteq> n" "t (last q, n) = Some s" by auto
  have ne: "''ERROR'' \<notin> set (q @ [s])" using Cons.prems(3) by auto
  have "walk t n q = walk t n (q @ [s])"
    by (subst walk.simps) (use st ne in simp)
  moreover have "walk t n (q @ [s]) = walk t n ((q @ [s]) @ ys)"
    using Cons.IH[of "q @ [s]"] Cons.prems by simp
  ultimately show ?case by simp
qed

lemma walk_from_start:
  assumes "q \<noteq> []" "hd q = c" "follows t n q" "q \<noteq> [c] \<longrightarrow> ''ERROR'' \<notin> set q"
  shows "walk t n [c] = walk t n q"
proof -
  from assms(1,2) obtain ys where q: "q = [c] @ ys" by (cases q) auto
  have "ys \<noteq> [] \<longrightarrow> ''ERROR'' \<notin> set ([c] @ ys)" using assms(4) q by auto
  from walk_extend[of "[c]" t n ys, OF _ _ this] assms(3) q show ?thesis by simp
qed

lemma walk_returns:
  assumes "p \<noteq> []" "hd p = c" "last p = n" "follows t n p" "p \<noteq> [c] \<longrightarrow> ''ERROR'' \<notin> set p"
  shows "walk t n [c] = Some (Inr p)"
proof -
  have "walk t n p = Some (Inr p)" using assms(3) by (subst walk.simps) simp
  with walk_from_start[OF assms(1,2,4,5)] show ?thesis by simp
qed

subsection \<open>Walks and shortest paths of a graph\<close>

lemma is_walk_snoc:
  "is_walk arcs (p @ [s]) = (p = [] \<or> (is_walk arcs p \<and> (last p, s) \<in> arcs))"
  by (induction arcs p rule: is_walk.induct) auto

lemma walks_sound:
  "p \<in> walks arcs c k \<Longrightarrow> is_walk arcs p \<and> hd p = c \<and> length p = Suc k"
proof (induction k arbitrary: p)
  case 0 then show ?case by simp
next
  case (Suc k)
  then obtain q e where q: "q \<in> walks arcs c k" "e \<in> arcs" "last q = fst e" "p = q @ [snd e]"
    by auto
  from Suc.IH[OF q(1)] have iq: "is_walk arcs q" "hd q = c" "length q = Suc k" by auto
  then have "q \<noteq> []" by auto
  with iq q show ?case by (auto simp: is_walk_snoc)
qed

lemma walks_SucI:
  assumes "q \<in> walks arcs c k" "(last q, s) \<in> arcs"
  shows "q @ [s] \<in> walks arcs c (Suc k)"
proof -
  have "(q, (last q, s)) \<in> {(p, e). (p, e) \<in> walks arcs c k \<times> arcs \<and> last p = fst e}"
    using assms by simp
  then have "(\<lambda>(p, e). p @ [snd e]) (q, (last q, s)) \<in> walks arcs c (Suc k)"
    unfolding walks.simps by (rule imageI)
  then show ?thesis by simp
qed

lemma walks_complete:
  "is_walk arcs p \<Longrightarrow> p \<in> walks arcs (hd p) (length p - 1)"
proof (induction p rule: rev_induct)
  case Nil then show ?case by simp
next
  case (snoc s q)
  show ?case
  proof (cases "q = []")
    case True then show ?thesis by simp
  next
    case False
    with snoc.prems have iq: "is_walk arcs q" "(last q, s) \<in> arcs" by (auto simp: is_walk_snoc)
    from snoc.IH[OF iq(1)] have "q \<in> walks arcs (hd q) (length q - 1)" .
    moreover have "length (q @ [s]) - 1 = Suc (length q - 1)" using False by (cases q) auto
    moreover have "hd (q @ [s]) = hd q" using False by simp
    ultimately show ?thesis using walks_SucI[of q arcs "hd q" "length q - 1" s] iq(2) by simp
  qed
qed

lemma finite_walks: "finite arcs \<Longrightarrow> finite (walks arcs c k)"
proof (induction k)
  case 0 then show ?case by simp
next
  case (Suc k)
  then have "finite (walks arcs c k \<times> arcs)" by simp
  then have "finite {(p, e). (p, e) \<in> walks arcs c k \<times> arcs \<and> last p = fst e}"
    by (rule rev_finite_subset) auto
  then show ?case by simp
qed

lemma finite_paths_to: "finite arcs \<Longrightarrow> finite (paths_to arcs c n k)"
  using finite_walks[of arcs c k] by (simp add: paths_to_def)

lemma search_Some:
  "search arcs c n k fuel = Some ps \<Longrightarrow>
     \<exists>k'. k \<le> k' \<and> k' < k + fuel \<and> ps = paths_to arcs c n k' \<and> ps \<noteq> {}
          \<and> (\<forall>j. k \<le> j \<and> j < k' \<longrightarrow> paths_to arcs c n j = {})"
proof (induction fuel arbitrary: k)
  case 0 then show ?case by simp
next
  case (Suc fuel)
  show ?case
  proof (cases "paths_to arcs c n k = {}")
    case False
    with Suc.prems show ?thesis by (intro exI[of _ k]) auto
  next
    case True
    with Suc.prems have "search arcs c n (Suc k) fuel = Some ps" by simp
    from Suc.IH[OF this] obtain k' where k': "Suc k \<le> k'" "k' < Suc k + fuel"
      "ps = paths_to arcs c n k'" "ps \<noteq> {}" "\<forall>j. Suc k \<le> j \<and> j < k' \<longrightarrow> paths_to arcs c n j = {}"
      by blast
    have "\<forall>j. k \<le> j \<and> j < k' \<longrightarrow> paths_to arcs c n j = {}"
    proof (intro allI impI)
      fix j assume "k \<le> j \<and> j < k'"
      then show "paths_to arcs c n j = {}" using True k'(5) by (cases "j = k") auto
    qed
    with k' show ?thesis by (intro exI[of _ k']) auto
  qed
qed

lemma search_finds:
  "paths_to arcs c n j \<noteq> {} \<Longrightarrow> k \<le> j \<Longrightarrow> j < k + fuel \<Longrightarrow> \<exists>ps. search arcs c n k fuel = Some ps"
proof (induction fuel arbitrary: k)
  case 0 then show ?case by simp
next
  case (Suc fuel)
  show ?case
  proof (cases "paths_to arcs c n k = {}")
    case False then show ?thesis by simp
  next
    case True
    with Suc.prems have "Suc k \<le> j" by (cases "j = k") auto
    from Suc.IH[OF Suc.prems(1) this] Suc.prems(3) True show ?thesis by simp
  qed
qed

lemma is_walk_nodes:
  "is_walk arcs p \<Longrightarrow> 2 \<le> length p \<Longrightarrow> set p \<subseteq> nodes arcs"
proof (induction arcs p rule: is_walk.induct)
  case (3 arcs a b xs)
  have ab: "a \<in> nodes arcs" "b \<in> nodes arcs" using 3(2) by (force simp: nodes_def)+
  show ?case
  proof (cases xs)
    case Nil with ab show ?thesis by simp
  next
    case (Cons x ys)
    with 3 have "set (b # xs) \<subseteq> nodes arcs" by simp
    with ab show ?thesis by simp
  qed
qed auto

lemma finite_nodes: "finite arcs \<Longrightarrow> finite (nodes arcs)"
  by (simp add: nodes_def)

text \<open>A walk without repeated state bounds the search, which then succeeds.\<close>

lemma all_shortest_paths_exists:
  assumes fin: "finite arcs" and w: "is_walk arcs p" and h: "hd p = c" and l: "last p = n"
    and d: "distinct p" and len: "2 \<le> length p"
  shows "\<exists>k ps. all_shortest_paths arcs c n = Inr ps \<and> ps = paths_to arcs c n k \<and> ps \<noteq> {}
           \<and> Suc k \<le> length p \<and> (\<forall>j < k. paths_to arcs c n j = {})"
proof -
  have sub: "set p \<subseteq> nodes arcs" using is_walk_nodes[OF w len] .
  have pne: "p \<noteq> []" using len by auto
  then have cn: "c \<in> nodes arcs" using sub h by (cases p) auto
  have "card (set p) \<le> card (nodes arcs)" using sub fin by (simp add: card_mono finite_nodes)
  then have lp: "length p \<le> card (nodes arcs)" using d by (simp add: distinct_card)
  have "p \<in> paths_to arcs c n (length p - 1)"
    using walks_complete[OF w] h l by (simp add: paths_to_def)
  then have ne: "paths_to arcs c n (length p - 1) \<noteq> {}" by auto
  have "length p - 1 < 0 + card (nodes arcs)" using lp pne by (cases p) auto
  from search_finds[OF ne _ this] obtain ps where ps: "search arcs c n 0 (card (nodes arcs)) = Some ps"
    by auto
  from search_Some[OF ps] obtain k where k: "ps = paths_to arcs c n k" "ps \<noteq> {}"
    "\<forall>j. 0 \<le> j \<and> j < k \<longrightarrow> paths_to arcs c n j = {}" by blast
  have "k \<le> length p - 1"
  proof (rule ccontr)
    assume "\<not> k \<le> length p - 1"
    then have "length p - 1 < k" by simp
    with k(3) ne show False by simp
  qed
  then have "Suc k \<le> length p" using pne by (cases p) auto
  with ps k cn show ?thesis by (auto simp: all_shortest_paths_def)
qed

lemma all_shortest_paths_Inr:
  assumes "all_shortest_paths arcs c n = Inr ps"
  shows "\<exists>k. ps = paths_to arcs c n k \<and> ps \<noteq> {} \<and> (\<forall>j < k. paths_to arcs c n j = {})"
proof -
  from assms obtain ps' where "search arcs c n 0 (card (nodes arcs)) = Some ps'" "ps' = ps"
    by (auto simp: all_shortest_paths_def split: if_splits option.splits)
  from search_Some[OF this(1)] this(2) show ?thesis by auto
qed

text \<open>No walk is shorter than a path the search returns.\<close>

lemma shortest_minimal:
  assumes "all_shortest_paths arcs c n = Inr ps" "p \<in> ps" "is_walk arcs q" "hd q = c" "last q = n"
  shows "length p \<le> length q"
proof -
  from all_shortest_paths_Inr[OF assms(1)] obtain k where k: "ps = paths_to arcs c n k"
    "\<forall>j < k. paths_to arcs c n j = {}" by blast
  have lp: "length p = Suc k" using assms(2) k(1) walks_sound[of p arcs c k] by (simp add: paths_to_def)
  have "q \<in> paths_to arcs c n (length q - 1)"
    using walks_complete[OF assms(3)] assms(4,5) by (simp add: paths_to_def)
  then have "\<not> length q - 1 < k" using k(2) by auto
  moreover have "q \<noteq> []" using assms(3) by auto
  ultimately show ?thesis using lp by (cases q) auto
qed

lemma paths_to_direct:
  assumes "(c, n) \<in> arcs" "c \<noteq> n"
  shows "paths_to arcs c n 0 = {}" "paths_to arcs c n 1 = {[c, n]}"
  using assms by (auto simp: paths_to_def image_iff)

lemma all_shortest_paths_direct:
  assumes "finite arcs" "(c, n) \<in> arcs" "c \<noteq> n"
  shows "all_shortest_paths arcs c n = Inr {[c, n]}"
proof -
  have "is_walk arcs [c, n]" using assms by simp
  from all_shortest_paths_exists[OF assms(1) this, of c n] assms(3)
  obtain k where k: "all_shortest_paths arcs c n = Inr (paths_to arcs c n k)"
    "paths_to arcs c n k \<noteq> {}" "Suc k \<le> 2" by auto
  have "k \<noteq> 0" using k(2) paths_to_direct(1)[OF assms(2,3)] by auto
  with k(3) have "k = 1" by simp
  with k(1) paths_to_direct(2)[OF assms(2,3)] show ?thesis by simp
qed

subsection \<open>The loops of the run\<close>

lemma follows_is_walk:
  "follows t n p \<Longrightarrow> blocked_transitions t = Inr blocked \<Longrightarrow> fsm_arcs t blocked = Inr arcs
     \<Longrightarrow> n \<in> all_states t \<Longrightarrow> p \<noteq> [] \<Longrightarrow> ''ERROR'' \<notin> set p \<Longrightarrow> is_walk arcs p"
proof (induction t n p rule: follows.induct)
  case (1 t n a b xs)
  note pr = "1.prems"
  have f: "a \<noteq> n" "t (a, n) = Some b" "follows t n (b # xs)" using pr(1) by auto
  have "(a, n) \<in> dom t" using f(2) by auto
  then have "a \<in> all_states t" by (force simp: all_states_def)
  then have "(a, n) \<in> all_state_pairs t" using f(1) pr(4) by (simp add: all_state_pairs_def)
  moreover have "b \<noteq> ''ERROR''" using pr(6) by auto
  ultimately have "(a, b) \<in> arcs" using in_fsm_arcs_iff[OF pr(2,3), of a b] f(2) by auto
  moreover have "is_walk arcs (b # xs)" using "1.IH"[OF f(3) pr(2,3,4)] pr(6) by simp
  ultimately show ?case by simp
qed simp_all

lemma combination_loop_Inr:
  "combination_loop t order m = Some (Inr comb) \<Longrightarrow>
     (\<forall>(c, n) \<in> set order. \<exists>p. walk t n [c] = Some (Inr p) \<and> comb (c, n) = Some p) \<and>
     (\<forall>cn. cn \<notin> set order \<longrightarrow> comb cn = m cn)"
proof (induction order arbitrary: m)
  case Nil then show ?case by simp
next
  case (Cons cn order)
  obtain c n where cn: "cn = (c, n)" by (cases cn)
  from Cons.prems cn obtain p where p: "walk t n [c] = Some (Inr p)"
    "combination_loop t order (m((c, n) \<mapsto> p)) = Some (Inr comb)"
    by (auto split: option.splits sum.splits)
  from Cons.IH[OF p(2)] have ih:
    "\<forall>(c, n) \<in> set order. \<exists>p. walk t n [c] = Some (Inr p) \<and> comb (c, n) = Some p"
    "\<forall>cn'. cn' \<notin> set order \<longrightarrow> comb cn' = (m((c, n) \<mapsto> p)) cn'" by auto
  have "\<exists>p. walk t n [c] = Some (Inr p) \<and> comb (c, n) = Some p"
  proof (cases "(c, n) \<in> set order")
    case True with ih(1) show ?thesis by auto
  next
    case False with ih(2) p(1) show ?thesis by auto
  qed
  with ih cn show ?case by auto
qed

lemma check_loop_Inr:
  "check_loop arcs comb ap l = Inr amb \<Longrightarrow>
     \<forall>cn \<in> set l. \<exists>r. check_pair arcs comb ap cn = Inr r \<and> (\<forall>tied. r = Some tied \<longrightarrow> (cn, tied) \<in> set amb)"
proof (induction l arbitrary: amb)
  case Nil then show ?case by simp
next
  case (Cons cn l)
  from Cons.prems obtain r rs where r: "check_pair arcs comb ap cn = Inr r"
    "check_loop arcs comb ap l = Inr rs" "amb = (case r of None \<Rightarrow> [] | Some tied \<Rightarrow> [(cn, tied)]) @ rs"
    by (auto split: sum.splits)
  from Cons.IH[OF r(2)] r(1,3) show ?case by (auto split: option.splits)
qed

lemma check_loop_passes:
  "\<forall>cn \<in> set l. \<exists>r. check_pair arcs comb ap cn = Inr r \<Longrightarrow> \<exists>amb. check_loop arcs comb ap l = Inr amb"
  by (induction l) auto

lemma study_Inr:
  assumes "study t order = Some (Inr r)"
  shows "blocked_transitions t = Inr (r_blocked_transitions r)"
    "fsm_arcs t (r_blocked_transitions r) = Inr (r_fsm_arcs r)"
    "combination_loop t order Map.empty = Some (Inr (r_combination_paths r))"
    "r_all_paths r = all_paths (r_combination_paths r) (r_fsm_arcs r) (r_blocked_transitions r)"
    "check_loop (r_fsm_arcs r) (r_combination_paths r) (r_all_paths r)
        (sorted_list_of_set (all_state_pairs t - r_blocked_transitions r)) = Inr (r_ambiguity r)"
    "r_unwind r = unwind_study (r_combination_paths r) (r_all_paths r)"
  using assms
  by (auto simp: study_def Let_def split: sum.splits option.splits)

lemma study_completes:
  assumes "blocked_transitions t = Inr blocked" "fsm_arcs t blocked = Inr arcs"
    "combination_loop t order Map.empty = Some (Inr comb)"
    "check_loop arcs comb (all_paths comb arcs blocked)
        (sorted_list_of_set (all_state_pairs t - blocked)) = Inr amb"
  shows "study t order = Some (Inr \<lparr> r_fsm_arcs = arcs, r_blocked_transitions = blocked,
                     r_combination_paths = comb, r_all_paths = all_paths comb arcs blocked,
                     r_ambiguity = amb,
                     r_unwind = unwind_study comb (all_paths comb arcs blocked) \<rparr>)"
  using assms table_is_complete_after_blocked[OF assms(1)]
  by (simp add: study_def Let_def)

lemma check_pair_direct:
  assumes "finite arcs" "(c, n) \<in> arcs" "(c, n) \<notin> blocked" "c \<noteq> n"
  shows "check_pair arcs comb (all_paths comb arcs blocked) (c, n) = Inr None"
  using all_shortest_paths_direct[OF assms(1,2,4)] assms(2,3)
  by (simp add: check_pair_def all_paths_def)

section \<open>Evaluation on the example tables and graphs\<close>

subsection \<open>Evaluation of the table of three states\<close>

lemma asp_three:
  "all_state_pairs t_three =
     {(''A'', ''B''), (''A'', ''C''), (''B'', ''A''), (''B'', ''C''), (''C'', ''A''), (''C'', ''B'')}"
  by (auto simp: all_state_pairs_def all_states_def t_three_def dom_map_of_conv_image_fst)

lemma blocked_three: "blocked_transitions t_three = Inr {}"
  unfolding blocked_transitions_def asp_three by (simp add: t_three_def)

lemma arcs_three:
  "fsm_arcs t_three {} = Inr {(''A'', ''B''), (''B'', ''C''), (''B'', ''A''), (''C'', ''B'')}"
  unfolding fsm_arcs_def asp_three by (auto simp add: t_three_def)

subsection \<open>Evaluation of the other example tables\<close>

lemma asp_swap:
  "all_state_pairs t_swap =
     {(''A'', ''B''), (''A'', ''C''), (''B'', ''A''), (''B'', ''C''), (''C'', ''A''), (''C'', ''B'')}"
  by (auto simp: all_state_pairs_def all_states_def t_swap_def dom_map_of_conv_image_fst)

lemma blocked_swap: "blocked_transitions t_swap = Inr {}"
  unfolding blocked_transitions_def asp_swap by (simp add: t_swap_def)

lemma arcs_swap:
  "fsm_arcs t_swap {} =
     Inr {(''A'', ''B''), (''A'', ''C''), (''B'', ''A''), (''B'', ''C''), (''C'', ''A''), (''C'', ''B'')}"
  unfolding fsm_arcs_def asp_swap by (auto simp add: t_swap_def)

lemma asp_cycle:
  "all_state_pairs t_cycle =
     {(''A'', ''B''), (''A'', ''C''), (''B'', ''A''), (''B'', ''C''), (''C'', ''A''), (''C'', ''B'')}"
  by (auto simp: all_state_pairs_def all_states_def t_cycle_def dom_map_of_conv_image_fst)

lemma blocked_cycle: "blocked_transitions t_cycle = Inr {}"
  unfolding blocked_transitions_def asp_cycle by (simp add: t_cycle_def)

lemma arcs_cycle:
  "fsm_arcs t_cycle {} = Inr {(''A'', ''B''), (''B'', ''A''), (''C'', ''A''), (''C'', ''B'')}"
  unfolding fsm_arcs_def asp_cycle by (auto simp add: t_cycle_def)

lemma walk_cycle: "walk t_cycle ''C'' [''A''] = None"
proof -
  have "walk t_cycle ''C'' [''A'', ''B'', ''A''] = None"
    by (rule walk_repeat_diverges) (simp_all add: t_cycle_def)
  moreover have "walk t_cycle ''C'' [''A'', ''B''] = walk t_cycle ''C'' [''A'', ''B'', ''A'']"
    by (subst walk.simps) (simp add: t_cycle_def)
  moreover have "walk t_cycle ''C'' [''A''] = walk t_cycle ''C'' [''A'', ''B'']"
    by (subst walk.simps) (simp add: t_cycle_def)
  ultimately show ?thesis by simp
qed


subsection \<open>Paths of a run that completes\<close>

lemma run_direct_path:
  assumes "study t order = Some (Inr r)" "(c, n) \<in> r_fsm_arcs r" "(c, n) \<notin> r_blocked_transitions r"
  shows "r_all_paths r (c, n) = Some [c, n]"
  using study_Inr(4)[OF assms(1)] assms(2,3) by (simp add: all_paths_def)

lemma run_combination_path:
  assumes "study t order = Some (Inr r)"
    "set order = combination_pairs t (r_fsm_arcs r) (r_blocked_transitions r)"
    "(c, n) \<in> all_state_pairs t" "(c, n) \<notin> r_blocked_transitions r" "(c, n) \<notin> r_fsm_arcs r"
  shows "\<exists>p. walk t n [c] = Some (Inr p) \<and> r_combination_paths r (c, n) = Some p
             \<and> r_all_paths r (c, n) = Some p"
proof -
  have "(c, n) \<in> set order" using assms(2-5) by (simp add: combination_pairs_def)
  with combination_loop_Inr[OF study_Inr(3)[OF assms(1)]]
  obtain p where "walk t n [c] = Some (Inr p)" "r_combination_paths r (c, n) = Some p" by auto
  then show ?thesis using study_Inr(4)[OF assms(1)] assms(5) by (simp add: all_paths_def)
qed

subsection \<open>Evaluation of the shortest paths on a list of arcs\<close>

lemma walks_list_set: "walks (set es) c k = set (walks_list es c k)"
proof (induction k)
  case 0 then show ?case by simp
next
  case (Suc k)
  show ?case
  proof (rule set_eqI)
    fix x
    show "x \<in> walks (set es) c (Suc k) \<longleftrightarrow> x \<in> set (walks_list es c (Suc k))"
      using Suc by (auto simp: image_iff)
  qed
qed

lemma paths_to_list:
  "paths_to (set es) c n k = set (filter (\<lambda>p. last p = n) (walks_list es c k))"
  by (auto simp: paths_to_def walks_list_set)

lemma search_list_set:
  "search (set es) c n k fuel = map_option set (search_list es c n k fuel)"
proof (induction fuel arbitrary: k)
  case 0 then show ?case by simp
next
  case (Suc fuel)
  have "(set (filter (\<lambda>p. last p = n) (walks_list es c k)) = {}) =
        (filter (\<lambda>p. last p = n) (walks_list es c k) = [])"
    by (rule set_empty)
  with Suc show ?case by (simp add: paths_to_list Let_def del: set_filter)
qed

lemma nodes_list: "nodes (set es) = set (map fst es @ map snd es)"
  by (auto simp: nodes_def)

lemma all_shortest_paths_list:
  "all_shortest_paths (set es) c n =
     (if c \<notin> set (map fst es @ map snd es) then Inl NodeNotFound
      else case search_list es c n 0 (length (remdups (map fst es @ map snd es))) of
             None \<Rightarrow> Inl NetworkXNoPath
           | Some ps \<Rightarrow> Inr (set ps))"
proof -
  have "card (nodes (set es)) = length (remdups (map fst es @ map snd es))"
    unfolding nodes_list by (simp only: length_remdups_card_conv)
  then show ?thesis
    by (simp add: all_shortest_paths_def search_list_set nodes_list split: option.splits)
qed

lemma sp_three_A_C:
  "all_shortest_paths (set [(''A'', ''B''), (''B'', ''C''), (''B'', ''A''), (''C'', ''B'')]) ''A'' ''C''
     = Inr {[''A'', ''B'', ''C'']}"
  unfolding all_shortest_paths_list by simp

lemma sp_tie_A_D: "all_shortest_paths arcs_tie ''A'' ''D'' = Inr {[''A'', ''F'', ''D''], [''A'', ''G'', ''D'']}"
  unfolding arcs_tie_def all_shortest_paths_list by simp

lemma sp_tie_E_D: "all_shortest_paths arcs_tie ''E'' ''D'' = Inr {[''E'', ''F'', ''D''], [''E'', ''G'', ''D'']}"
  unfolding arcs_tie_def all_shortest_paths_list by simp

subsection \<open>Runs that complete\<close>

lemma study_exists:
  assumes b: "blocked_transitions t = Inr blocked" and a: "fsm_arcs t blocked = Inr arcs"
    and fin: "finite (dom t)"
    and cl: "combination_loop t order Map.empty = Some (Inr comb)"
    and sub: "all_state_pairs t - blocked - arcs \<subseteq> set order"
    and ck: "\<forall>cn \<in> set order. \<exists>r. check_pair arcs comb (all_paths comb arcs blocked) cn = Inr r"
  shows "\<exists>amb. study t order = Some (Inr \<lparr> r_fsm_arcs = arcs, r_blocked_transitions = blocked,
                     r_combination_paths = comb, r_all_paths = all_paths comb arcs blocked,
                     r_ambiguity = amb,
                     r_unwind = unwind_study comb (all_paths comb arcs blocked) \<rparr>)"
proof -
  have fa: "finite arcs" using finite_fsm_arcs[OF fin b a] .
  have fp: "finite (all_state_pairs t - blocked)" using finite_all_state_pairs[OF fin] by simp
  have "\<forall>cn \<in> set (sorted_list_of_set (all_state_pairs t - blocked)).
          \<exists>r. check_pair arcs comb (all_paths comb arcs blocked) cn = Inr r"
  proof
    fix cn assume "cn \<in> set (sorted_list_of_set (all_state_pairs t - blocked))"
    then have m: "cn \<in> all_state_pairs t - blocked" using fp by simp
    obtain c n where cn: "cn = (c, n)" by (cases cn)
    show "\<exists>r. check_pair arcs comb (all_paths comb arcs blocked) cn = Inr r"
    proof (cases "cn \<in> arcs")
      case True
      have "c \<noteq> n" using m cn by (simp add: all_state_pairs_def)
      with check_pair_direct[OF fa, of c n blocked comb] True m cn show ?thesis by simp
    next
      case False with m sub ck show ?thesis by blast
    qed
  qed
  from check_loop_passes[OF this] obtain amb where
    "check_loop arcs comb (all_paths comb arcs blocked)
       (sorted_list_of_set (all_state_pairs t - blocked)) = Inr amb" ..
  from study_completes[OF b a cl this] show ?thesis ..
qed

lemma study_swap:
  "\<exists>amb. study t_swap [] = Some (Inr \<lparr> r_fsm_arcs = {(''A'', ''B''), (''A'', ''C''), (''B'', ''A''), (''B'', ''C''), (''C'', ''A''), (''C'', ''B'')},
       r_blocked_transitions = {}, r_combination_paths = Map.empty,
       r_all_paths = all_paths Map.empty {(''A'', ''B''), (''A'', ''C''), (''B'', ''A''), (''B'', ''C''), (''C'', ''A''), (''C'', ''B'')} {},
       r_ambiguity = amb,
       r_unwind = unwind_study Map.empty (all_paths Map.empty {(''A'', ''B''), (''A'', ''C''), (''B'', ''A''), (''B'', ''C''), (''C'', ''A''), (''C'', ''B'')} {}) \<rparr>)"
proof (rule study_exists[OF blocked_swap arcs_swap])
  show "finite (dom t_swap)" by (simp add: t_swap_def finite_dom_map_of)
  show "combination_loop t_swap [] Map.empty = Some (Inr Map.empty)" by simp
  show "all_state_pairs t_swap - {} - {(''A'', ''B''), (''A'', ''C''), (''B'', ''A''), (''B'', ''C''), (''C'', ''A''), (''C'', ''B'')} \<subseteq> set []"
    by (simp add: asp_swap)
qed simp

subsection \<open>The check of the shortest paths\<close>

lemma check_pair_unique:
  assumes "all_shortest_paths arcs c n = Inr ps" and "card ps = 1" and "ap (c, n) = Some q"
  shows "check_pair arcs comb ap (c, n) = Inr None \<longleftrightarrow> ps = {q}"
    and "check_pair arcs comb ap (c, n) = Inl AssertionError \<longleftrightarrow> ps \<noteq> {q}"
proof -
  from assms(2) obtain x where x: "ps = {x}" by (auto simp: card_1_singleton_iff)
  show "check_pair arcs comb ap (c, n) = Inr None \<longleftrightarrow> ps = {q}"
    and "check_pair arcs comb ap (c, n) = Inl AssertionError \<longleftrightarrow> ps \<noteq> {q}"
    using assms(1,3) x by (auto simp: check_pair_def)
qed

lemma sp_diamond:
  "all_shortest_paths arcs_diamond ''A'' ''D'' = Inr {[''A'', ''B'', ''D''], [''A'', ''C'', ''D'']}"
  unfolding arcs_diamond_def all_shortest_paths_list by simp

subsection \<open>Evaluation of the runs on the example tables\<close>

lemma all_states_map_of: "all_states (map_of xs) = set (map (\<lambda>x. fst (fst x)) xs)"
  by (simp add: all_states_def dom_map_of_conv_image_fst image_image)

lemma all_state_pairs_map_of:
  "all_state_pairs (map_of xs) =
     set (filter (\<lambda>(c, n). c \<noteq> n)
            (List.product (remdups (map (\<lambda>x. fst (fst x)) xs)) (remdups (map (\<lambda>x. fst (fst x)) xs))))"
  by (auto simp: all_state_pairs_def all_states_map_of)

lemma blocked_transitions_empty:
  "\<forall>p \<in> all_state_pairs t. t p \<noteq> None \<and> t p \<noteq> Some ''ERROR'' \<Longrightarrow> blocked_transitions t = Inr {}"
  by (auto simp: blocked_transitions_def)

lemma fsm_arcs_no_blocked:
  "blocked_transitions t = Inr {} \<Longrightarrow>
     fsm_arcs t {} = Inr ((\<lambda>p. (fst p, the (t p))) ` all_state_pairs t)"
  using fsm_arcs_Inr[of t "{}"] by (simp add: case_prod_unfold)

lemma asp_tie:
  "all_state_pairs t_tie =
     {(''A'', ''D''), (''A'', ''E''), (''A'', ''F''), (''A'', ''G''),
      (''D'', ''A''), (''D'', ''E''), (''D'', ''F''), (''D'', ''G''),
      (''E'', ''A''), (''E'', ''D''), (''E'', ''F''), (''E'', ''G''),
      (''F'', ''A''), (''F'', ''D''), (''F'', ''E''), (''F'', ''G''),
      (''G'', ''A''), (''G'', ''D''), (''G'', ''E''), (''G'', ''F'')}"
  unfolding t_tie_def all_state_pairs_map_of by simp

lemma blocked_tie: "blocked_transitions t_tie = Inr {}"
  by (rule blocked_transitions_empty) (simp add: asp_tie, simp add: t_tie_def)

lemma fsm_arcs_tie: "fsm_arcs t_tie {} = Inr arcs_tie"
  unfolding fsm_arcs_no_blocked[OF blocked_tie] asp_tie arcs_tie_def
  by (simp add: t_tie_def)

lemma check_pair_tied:
  assumes "all_shortest_paths arcs c n = Inr ps" "finite ps" "card ps \<noteq> 1"
  shows "\<exists>r. check_pair arcs comb ap (c, n) = Inr r"
  using assms by (simp add: check_pair_def Let_def)

lemma study_tie:
  "\<exists>amb. study t_tie [(''A'', ''D''), (''E'', ''D'')] =
     Some (Inr \<lparr> r_fsm_arcs = arcs_tie, r_blocked_transitions = {},
       r_combination_paths =
         [(''A'', ''D'') \<mapsto> [''A'', ''E'', ''F'', ''D''], (''E'', ''D'') \<mapsto> [''E'', ''F'', ''D'']],
       r_all_paths =
         all_paths [(''A'', ''D'') \<mapsto> [''A'', ''E'', ''F'', ''D''], (''E'', ''D'') \<mapsto> [''E'', ''F'', ''D'']]
           arcs_tie {},
       r_ambiguity = amb,
       r_unwind = unwind_study
         [(''A'', ''D'') \<mapsto> [''A'', ''E'', ''F'', ''D''], (''E'', ''D'') \<mapsto> [''E'', ''F'', ''D'']]
         (all_paths [(''A'', ''D'') \<mapsto> [''A'', ''E'', ''F'', ''D''], (''E'', ''D'') \<mapsto> [''E'', ''F'', ''D'']]
            arcs_tie {}) \<rparr>)"
proof (rule study_exists[OF blocked_tie fsm_arcs_tie])
  show "finite (dom t_tie)" by (simp add: t_tie_def finite_dom_map_of)
  show "combination_loop t_tie [(''A'', ''D''), (''E'', ''D'')] Map.empty =
          Some (Inr [(''A'', ''D'') \<mapsto> [''A'', ''E'', ''F'', ''D''], (''E'', ''D'') \<mapsto> [''E'', ''F'', ''D'']])"
    by (simp add: walk.simps t_tie_def)
  show "all_state_pairs t_tie - {} - arcs_tie \<subseteq> set [(''A'', ''D''), (''E'', ''D'')]"
    by (simp add: asp_tie arcs_tie_def Diff_subset_conv)
  show "\<forall>cn\<in>set [(''A'', ''D''), (''E'', ''D'')].
       \<exists>r. check_pair arcs_tie
              [(''A'', ''D'') \<mapsto> [''A'', ''E'', ''F'', ''D''], (''E'', ''D'') \<mapsto> [''E'', ''F'', ''D'']]
              (all_paths [(''A'', ''D'') \<mapsto> [''A'', ''E'', ''F'', ''D''], (''E'', ''D'') \<mapsto> [''E'', ''F'', ''D'']]
                 arcs_tie {}) cn = Inr r"
    using check_pair_tied[OF sp_tie_A_D] check_pair_tied[OF sp_tie_E_D] by simp
qed

lemma sp_three_C_A:
  "all_shortest_paths (set [(''A'', ''B''), (''B'', ''C''), (''B'', ''A''), (''C'', ''B'')]) ''C'' ''A''
     = Inr {[''C'', ''B'', ''A'']}"
  unfolding all_shortest_paths_list by simp

lemma study_three:
  "\<exists>amb. study t_three [(''A'', ''C''), (''C'', ''A'')] =
     Some (Inr \<lparr> r_fsm_arcs = {(''A'', ''B''), (''B'', ''C''), (''B'', ''A''), (''C'', ''B'')},
       r_blocked_transitions = {},
       r_combination_paths = [(''A'', ''C'') \<mapsto> [''A'', ''B'', ''C''], (''C'', ''A'') \<mapsto> [''C'', ''B'', ''A'']],
       r_all_paths = all_paths [(''A'', ''C'') \<mapsto> [''A'', ''B'', ''C''], (''C'', ''A'') \<mapsto> [''C'', ''B'', ''A'']]
                       {(''A'', ''B''), (''B'', ''C''), (''B'', ''A''), (''C'', ''B'')} {},
       r_ambiguity = amb,
       r_unwind = unwind_study [(''A'', ''C'') \<mapsto> [''A'', ''B'', ''C''], (''C'', ''A'') \<mapsto> [''C'', ''B'', ''A'']]
                    (all_paths [(''A'', ''C'') \<mapsto> [''A'', ''B'', ''C''], (''C'', ''A'') \<mapsto> [''C'', ''B'', ''A'']]
                       {(''A'', ''B''), (''B'', ''C''), (''B'', ''A''), (''C'', ''B'')} {}) \<rparr>)"
proof (rule study_exists[OF blocked_three arcs_three])
  show "finite (dom t_three)" by (simp add: t_three_def finite_dom_map_of)
  show "combination_loop t_three [(''A'', ''C''), (''C'', ''A'')] Map.empty =
          Some (Inr [(''A'', ''C'') \<mapsto> [''A'', ''B'', ''C''], (''C'', ''A'') \<mapsto> [''C'', ''B'', ''A'']])"
    by (simp add: walk.simps t_three_def)
  show "all_state_pairs t_three - {} - {(''A'', ''B''), (''B'', ''C''), (''B'', ''A''), (''C'', ''B'')}
          \<subseteq> set [(''A'', ''C''), (''C'', ''A'')]"
    by (simp add: asp_three Diff_subset_conv)
  show "\<forall>cn\<in>set [(''A'', ''C''), (''C'', ''A'')].
       \<exists>r. check_pair {(''A'', ''B''), (''B'', ''C''), (''B'', ''A''), (''C'', ''B'')}
              [(''A'', ''C'') \<mapsto> [''A'', ''B'', ''C''], (''C'', ''A'') \<mapsto> [''C'', ''B'', ''A'']]
              (all_paths [(''A'', ''C'') \<mapsto> [''A'', ''B'', ''C''], (''C'', ''A'') \<mapsto> [''C'', ''B'', ''A'']]
                       {(''A'', ''B''), (''B'', ''C''), (''B'', ''A''), (''C'', ''B'')} {}) cn = Inr r"
    using sp_three_A_C sp_three_C_A
    by (simp add: check_pair_def all_paths_def)
qed

subsection \<open>The report of the tied shortest paths\<close>

lemma check_pair_ambiguity:
  assumes "all_shortest_paths arcs c n = Inr ps" and "finite arcs" and "card ps \<noteq> 1"
    and "c \<noteq> n"
  shows "check_pair arcs comb (all_paths comb arcs blocked) (c, n) =
           Inr (Some (map (\<lambda>path. (path, all_paths comb arcs blocked (c, n) = Some path))
                          (sorted_list_of_set ps)))"
    and "finite ps" and "2 \<le> card ps"
proof -
  from all_shortest_paths_Inr[OF assms(1)] obtain k where k: "ps = paths_to arcs c n k" "ps \<noteq> {}"
    by blast
  show fin: "finite ps" using k(1) finite_paths_to[OF assms(2)] by simp
  have "card ps \<noteq> 0" using fin k(2) by simp
  with assms(3) show "2 \<le> card ps" by simp
  have na: "(c, n) \<notin> arcs"
  proof
    assume "(c, n) \<in> arcs"
    from all_shortest_paths_direct[OF assms(2) this assms(4)] assms(1,3) show False by simp
  qed
  then have ap: "all_paths comb arcs blocked (c, n) = comb (c, n)"
    by (simp add: all_paths_def)
  have len: "length (sorted_list_of_set ps) \<noteq> 1" using assms(3) by simp
  have "(\<lambda>path. (path, Some path = comb (c, n))) = (\<lambda>path. (path, comb (c, n) = Some path))"
    by (rule ext) auto
  then show "check_pair arcs comb (all_paths comb arcs blocked) (c, n) =
           Inr (Some (map (\<lambda>path. (path, all_paths comb arcs blocked (c, n) = Some path))
                          (sorted_list_of_set ps)))"
    using assms(1) len ap by (simp add: check_pair_def Let_def)
qed

lemma tied_flags:
  assumes "set (map fst tied) = {x, y}" "\<forall>(p, selected) \<in> set tied. selected \<longleftrightarrow> ap = Some p"
    "ap = Some x" "x \<noteq> y"
  shows "(x, True) \<in> set tied \<and> (y, False) \<in> set tied"
proof -
  from assms(1) have "x \<in> fst ` set tied" "y \<in> fst ` set tied" by auto
  then obtain s1 s2 where s: "(x, s1) \<in> set tied" "(y, s2) \<in> set tied" by force
  from assms(2) s assms(3,4) have "s1 = True" "s2 = False" by auto
  with s show ?thesis by simp
qed

section \<open>The claims\<close>

subsection \<open>The three kinds of pairs\<close>

text \<open>
  Claim C1, as the script has it.  For a table with an entry for every pair of distinct
  states, and a pair \<open>(c, n)\<close> of distinct states: the pair is blocked exactly when its
  entry is \<^verbatim>\<open>ERROR\<close>; otherwise it is direct (its path is \<open>[c, n]\<close>) exactly when \<open>(c, n)\<close>
  is an arc, that is when \<open>n\<close> is the entry of some pair \<open>(c, n')\<close>, which is so when its
  own entry is \<open>n\<close>; otherwise it is a combination pair.  Exactly one of the three holds.
\<close>

theorem classification:
  assumes "blocked_transitions all_arcs = Inr blocked" and "fsm_arcs all_arcs blocked = Inr arcs"
    and "(c, n) \<in> all_state_pairs all_arcs"
  shows "((c, n) \<in> blocked \<longleftrightarrow> all_arcs (c, n) = Some ''ERROR'') \<and>
         ((c, n) \<in> arcs - blocked \<longleftrightarrow>
            all_arcs (c, n) \<noteq> Some ''ERROR'' \<and>
            (\<exists>n'. (c, n') \<in> all_state_pairs all_arcs \<and> all_arcs (c, n') = Some n \<and> n \<noteq> ''ERROR'')) \<and>
         ((c, n) \<in> combination_pairs all_arcs arcs blocked \<longleftrightarrow>
            (c, n) \<notin> blocked \<and> (c, n) \<notin> arcs - blocked) \<and>
         (all_arcs (c, n) = Some n \<and> n \<noteq> ''ERROR'' \<longrightarrow> (c, n) \<in> arcs - blocked) \<and>
         ((c, n) \<in> blocked \<or> (c, n) \<in> arcs - blocked \<or> (c, n) \<in> combination_pairs all_arcs arcs blocked) \<and>
         \<not> ((c, n) \<in> blocked \<and> (c, n) \<in> arcs - blocked) \<and>
         \<not> ((c, n) \<in> blocked \<and> (c, n) \<in> combination_pairs all_arcs arcs blocked) \<and>
         \<not> ((c, n) \<in> arcs - blocked \<and> (c, n) \<in> combination_pairs all_arcs arcs blocked)"
  using blocked_transitions_Inr[OF assms(1)] in_fsm_arcs_iff[OF assms(1,2), of c n] assms(3)
  by (auto simp: combination_pairs_def)

theorem classification_witness:
  "blocked_transitions t_three = Inr {} \<and>
   fsm_arcs t_three {} = Inr {(''A'', ''B''), (''B'', ''C''), (''B'', ''A''), (''C'', ''B'')} \<and>
   (''A'', ''C'') \<in> all_state_pairs t_three \<and>
   (''A'', ''C'') \<in> combination_pairs t_three {(''A'', ''B''), (''B'', ''C''), (''B'', ''A''), (''C'', ''B'')} {} \<and>
   (''A'', ''C'') \<notin> {}"
proof -
  have h: "(''A'', ''C'') \<in> all_state_pairs t_three" by (simp add: asp_three)
  show ?thesis using classification[OF blocked_three arcs_three h] blocked_three arcs_three h
    by simp
qed

theorem classification_counterexample:
  "blocked_transitions t_swap = Inr {} \<and>
   fsm_arcs t_swap {} =
     Inr {(''A'', ''B''), (''A'', ''C''), (''B'', ''A''), (''B'', ''C''), (''C'', ''A''), (''C'', ''B'')} \<and>
   (''A'', ''B'') \<in> all_state_pairs t_swap \<and>
   t_swap (''A'', ''B'') = Some ''C'' \<and>
   (''A'', ''B'') \<notin> combination_pairs t_swap
      {(''A'', ''B''), (''A'', ''C''), (''B'', ''A''), (''B'', ''C''), (''C'', ''A''), (''C'', ''B'')} {} \<and>
   all_paths Map.empty
      {(''A'', ''B''), (''A'', ''C''), (''B'', ''A''), (''B'', ''C''), (''C'', ''A''), (''C'', ''B'')} {}
      (''A'', ''B'') = Some [''A'', ''B'']"
  using blocked_swap arcs_swap
  by (simp add: asp_swap combination_pairs_def all_paths_def) (simp add: t_swap_def)

subsection \<open>The graph of arcs\<close>

text \<open>
  Claim C2.  When the table has an entry for every pair of distinct states, the set
  \<^verbatim>\<open>fsm_arcs\<close> is the set of the pairs \<open>(c, s)\<close> such that \<open>s\<close> is the table's entry for
  some pair \<open>(c, n)\<close> of distinct states that is not blocked: the arc goes to the entry,
  which need not be \<open>n\<close>, and an arc that several pairs give is there once.
\<close>

theorem fsm_arcs_one_hop_graph:
  "blocked_transitions all_arcs = Inr blocked \<Longrightarrow>
     fsm_arcs all_arcs blocked =
       Inr {(c, s). \<exists>n. (c, n) \<in> all_state_pairs all_arcs \<and> (c, n) \<notin> blocked
                      \<and> all_arcs (c, n) = Some s}"
proof -
  assume b: "blocked_transitions all_arcs = Inr blocked"
  have "(\<lambda>(c, n). (c, the (all_arcs (c, n)))) ` (all_state_pairs all_arcs - blocked) =
        {(c, s). \<exists>n. (c, n) \<in> all_state_pairs all_arcs \<and> (c, n) \<notin> blocked
                     \<and> all_arcs (c, n) = Some s}"
    using blocked_transitions_Inr[OF b] by (force simp: image_iff)
  with fsm_arcs_Inr[OF b] show ?thesis by simp
qed

theorem fsm_arcs_one_hop_graph_witness:
  "blocked_transitions t_three = Inr {} \<and>
   {(c, s). \<exists>n. (c, n) \<in> all_state_pairs t_three \<and> (c, n) \<notin> {} \<and> t_three (c, n) = Some s}
     = {(''A'', ''B''), (''B'', ''C''), (''B'', ''A''), (''C'', ''B'')}"
  using fsm_arcs_one_hop_graph[OF blocked_three] blocked_three arcs_three by simp

subsection \<open>The walk of a combination pair\<close>

text \<open>
  Claim C3, as the script has it.  From \<open>[c]\<close>, with \<open>c\<close> other than \<open>n\<close>, the loop appends
  the table's entry for the last state and \<open>n\<close> until the last state is \<open>n\<close>: it returns
  the path \<open>p\<close> exactly when \<open>p\<close> starts at \<open>c\<close>, ends at \<open>n\<close>, follows the table and does
  not hold \<^verbatim>\<open>ERROR\<close>; such a path holds no state twice.  When the path that follows the
  table from \<open>c\<close> meets the entry \<^verbatim>\<open>ERROR\<close>, the run fails the assertion.  The loop has no
  test for a repeated state: when the path that follows the table from \<open>c\<close> holds a state
  twice, the loop never returns.
\<close>

theorem walk_resolution:
  "(c \<noteq> n \<longrightarrow>
      (walk all_arcs n [c] = Some (Inr p) \<longleftrightarrow>
         p \<noteq> [] \<and> hd p = c \<and> last p = n \<and> follows all_arcs n p \<and> ''ERROR'' \<notin> set p) \<and>
      (walk all_arcs n [c] = Some (Inr p) \<longrightarrow> distinct p)) \<and>
   (q \<noteq> [] \<longrightarrow> hd q = c' \<longrightarrow> follows all_arcs n' q \<longrightarrow> (q \<noteq> [c'] \<longrightarrow> ''ERROR'' \<notin> set q) \<longrightarrow>
      last q \<noteq> n' \<longrightarrow> all_arcs (last q, n') = Some ''ERROR'' \<longrightarrow>
      walk all_arcs n' [c'] = Some (Inl AssertionError)) \<and>
   (hd q' = c'' \<longrightarrow> follows all_arcs n'' q' \<longrightarrow> \<not> distinct q' \<longrightarrow> ''ERROR'' \<notin> set q' \<longrightarrow>
      walk all_arcs n'' [c''] = None)"
proof (intro conjI impI)
  assume cn: "c \<noteq> n"
  show "walk all_arcs n [c] = Some (Inr p) \<longleftrightarrow>
         p \<noteq> [] \<and> hd p = c \<and> last p = n \<and> follows all_arcs n p \<and> ''ERROR'' \<notin> set p"
  proof
    assume w: "walk all_arcs n [c] = Some (Inr p)"
    from walk_result[OF w cn] show "p \<noteq> [] \<and> hd p = c \<and> last p = n \<and> follows all_arcs n p \<and> ''ERROR'' \<notin> set p"
      by auto
  next
    assume "p \<noteq> [] \<and> hd p = c \<and> last p = n \<and> follows all_arcs n p \<and> ''ERROR'' \<notin> set p"
    then show "walk all_arcs n [c] = Some (Inr p)" using walk_returns[of p c n all_arcs] by simp
  qed
next
  assume "c \<noteq> n" "walk all_arcs n [c] = Some (Inr p)"
  then show "distinct p" using walk_result[of all_arcs n c p] by simp
next
  assume a: "q \<noteq> []" "hd q = c'" "follows all_arcs n' q" "q \<noteq> [c'] \<longrightarrow> ''ERROR'' \<notin> set q"
    "last q \<noteq> n'" "all_arcs (last q, n') = Some ''ERROR''"
  from walk_from_start[OF a(1-4)] walk_blocked[of q n' all_arcs] a(5,6)
  show "walk all_arcs n' [c'] = Some (Inl AssertionError)" by simp
next
  assume a: "hd q' = c''" "follows all_arcs n'' q'" "\<not> distinct q'" "''ERROR'' \<notin> set q'"
  have ne: "q' \<noteq> []" using a(3) by auto
  from walk_from_start[OF ne a(1,2)] a(4) walk_repeat_diverges[OF a(2,3,4)]
  show "walk all_arcs n'' [c''] = None" by simp
qed

theorem walk_resolution_witness:
  "''A'' \<noteq> ''F'' \<and> walk t_walks ''F'' [''A''] = Some (Inr [''A'', ''B'', ''C'', ''F'']) \<and>
   follows t_walks ''F'' [''A'', ''B'', ''C'', ''F''] \<and> distinct [''A'', ''B'', ''C'', ''F''] \<and>
   follows t_walks ''D'' [''A'', ''B''] \<and> last [''A'', ''B''] \<noteq> ''D'' \<and>
   t_walks (last [''A'', ''B''], ''D'') = Some ''ERROR'' \<and>
   walk t_walks ''D'' [''A''] = Some (Inl AssertionError) \<and>
   follows t_walks ''E'' [''A'', ''B'', ''A''] \<and> \<not> distinct [''A'', ''B'', ''A''] \<and>
   ''ERROR'' \<notin> set [''A'', ''B'', ''A''] \<and> walk t_walks ''E'' [''A''] = None"
proof -
  have h1: "''A'' \<noteq> ''F''" "[''A'', ''B'', ''C'', ''F''] \<noteq> []" "hd [''A'', ''B'', ''C'', ''F''] = ''A''"
    "last [''A'', ''B'', ''C'', ''F''] = ''F''" "follows t_walks ''F'' [''A'', ''B'', ''C'', ''F'']"
    "''ERROR'' \<notin> set [''A'', ''B'', ''C'', ''F'']"
    by (simp_all add: t_walks_def)
  have h2: "[''A'', ''B''] \<noteq> []" "hd [''A'', ''B''] = ''A''" "follows t_walks ''D'' [''A'', ''B'']"
    "[''A'', ''B''] \<noteq> [''A''] \<longrightarrow> ''ERROR'' \<notin> set [''A'', ''B'']"
    "last [''A'', ''B''] \<noteq> ''D''" "t_walks (last [''A'', ''B''], ''D'') = Some ''ERROR''"
    by (simp_all add: t_walks_def)
  have h3: "hd [''A'', ''B'', ''A''] = ''A''" "follows t_walks ''E'' [''A'', ''B'', ''A'']"
    "\<not> distinct [''A'', ''B'', ''A'']" "''ERROR'' \<notin> set [''A'', ''B'', ''A'']"
    by (simp_all add: t_walks_def)
  show ?thesis
    using walk_resolution[of "''A''" "''F''" t_walks "[''A'', ''B'', ''C'', ''F'']" "[''A'', ''B'']"
        "''A''" "''D''" "[''A'', ''B'', ''A'']" "''A''" "''E''"] h1 h2 h3
    by simp
qed

theorem walk_cycle_counterexample:
  "blocked_transitions t_cycle = Inr {} \<and>
   fsm_arcs t_cycle {} = Inr {(''A'', ''B''), (''B'', ''A''), (''C'', ''A''), (''C'', ''B'')} \<and>
   (''A'', ''C'') \<in> combination_pairs t_cycle
      {(''A'', ''B''), (''B'', ''A''), (''C'', ''A''), (''C'', ''B'')} {} \<and>
   walk t_cycle ''C'' [''A''] = None \<and>
   study t_cycle [(''A'', ''C'')] = None"
  using blocked_cycle arcs_cycle walk_cycle table_is_complete_after_blocked[OF blocked_cycle]
  by (simp add: combination_pairs_def asp_cycle study_def)

subsection \<open>Pairs with one shortest path\<close>

text \<open>
  Claim C4.  For a pair with exactly one shortest path in the graph of arcs, the check of
  the pair passes exactly when that path is the pair's path in \<^verbatim>\<open>all_paths\<close>, as a list;
  otherwise the assertion of line 99 fails.  So in a run whose loop of line 88 completes,
  the one shortest path of every such pair it meets is the pair's path.
\<close>

theorem unique_shortest_path_checked:
  assumes "all_shortest_paths arcs c n = Inr ps" and "card ps = 1" and "all_paths_d (c, n) = Some q"
  shows "(check_pair arcs combination_paths all_paths_d (c, n) = Inr None \<longleftrightarrow> ps = {q}) \<and>
         (check_pair arcs combination_paths all_paths_d (c, n) = Inl AssertionError \<longleftrightarrow> ps \<noteq> {q}) \<and>
         (check_loop arcs combination_paths all_paths_d l = Inr amb \<and> (c, n) \<in> set l \<longrightarrow> ps = {q})"
proof -
  note u = check_pair_unique[where ap = all_paths_d and comb = combination_paths, OF assms]
  have "check_loop arcs combination_paths all_paths_d l = Inr amb \<and> (c, n) \<in> set l \<longrightarrow> ps = {q}"
  proof
    assume h: "check_loop arcs combination_paths all_paths_d l = Inr amb \<and> (c, n) \<in> set l"
    with check_loop_Inr[of arcs combination_paths all_paths_d l amb]
    obtain r where "check_pair arcs combination_paths all_paths_d (c, n) = Inr r" by blast
    with u(2) show "ps = {q}" by auto
  qed
  with u show ?thesis by simp
qed

theorem unique_shortest_path_checked_witness:
  "all_shortest_paths {(''A'', ''B''), (''B'', ''C''), (''B'', ''A''), (''C'', ''B'')} ''A'' ''C''
     = Inr {[''A'', ''B'', ''C'']} \<and>
   card {[''A'', ''B'', ''C'']} = 1 \<and>
   check_pair {(''A'', ''B''), (''B'', ''C''), (''B'', ''A''), (''C'', ''B'')}
     [(''A'', ''C'') \<mapsto> [''A'', ''B'', ''C'']] [(''A'', ''C'') \<mapsto> [''A'', ''B'', ''C'']] (''A'', ''C'')
     = Inr None \<and>
   check_pair {(''A'', ''B''), (''B'', ''C''), (''B'', ''A''), (''C'', ''B'')}
     [(''A'', ''C'') \<mapsto> [''A'', ''B'', ''C'']] [(''A'', ''C'') \<mapsto> [''A'', ''B'', ''C'']] (''A'', ''C'')
     \<noteq> Inl AssertionError"
proof -
  have h1: "all_shortest_paths {(''A'', ''B''), (''B'', ''C''), (''B'', ''A''), (''C'', ''B'')} ''A'' ''C''
     = Inr {[''A'', ''B'', ''C'']}" using sp_three_A_C by simp
  have h2: "card {[''A'', ''B'', ''C'']} = 1" by simp
  have h3: "[(''A'', ''C'') \<mapsto> [''A'', ''B'', ''C'']] (''A'', ''C'') = Some [''A'', ''B'', ''C'']" by simp
  show ?thesis
    using unique_shortest_path_checked[where all_paths_d = "[(''A'', ''C'') \<mapsto> [''A'', ''B'', ''C'']]"
        and combination_paths = "[(''A'', ''C'') \<mapsto> [''A'', ''B'', ''C'']]" and l = "[]" and amb = "[]",
        OF h1 h2 h3] h1 h2
    by simp
qed

subsection \<open>The path of a pair and the shortest paths\<close>

text \<open>
  Claim C5, as the script has it.  In a run that completes, every pair of distinct states
  that is not blocked has a path in \<^verbatim>\<open>all_paths\<close>; the path goes from \<open>c\<close> to \<open>n\<close> and
  is a walk in the graph of arcs; the graph has shortest paths from \<open>c\<close> to \<open>n\<close>.  When
  there is exactly one shortest path, no walk from \<open>c\<close> to \<open>n\<close> is shorter than the pair's
  path.  With several shortest paths the script only reports them.
\<close>

theorem canonical_path_is_walk:
  assumes run: "study all_arcs order = Some (Inr r)"
    and ord: "set order = combination_pairs all_arcs (r_fsm_arcs r) (r_blocked_transitions r)"
    and fin: "finite (dom all_arcs)"
    and pr: "(c, n) \<in> all_state_pairs all_arcs - r_blocked_transitions r"
  shows "\<exists>p ps. r_all_paths r (c, n) = Some p \<and> hd p = c \<and> last p = n \<and>
                is_walk (r_fsm_arcs r) p \<and>
                all_shortest_paths (r_fsm_arcs r) c n = Inr ps \<and>
                (card ps = 1 \<longrightarrow>
                   (\<forall>q. is_walk (r_fsm_arcs r) q \<and> hd q = c \<and> last q = n \<longrightarrow> length p \<le> length q))"
proof -
  note b = study_Inr(1)[OF run] and a = study_Inr(2)[OF run]
  have fa: "finite (r_fsm_arcs r)" using finite_fsm_arcs[OF fin b a] .
  have cn: "c \<noteq> n" "n \<in> all_states all_arcs" using pr by (auto simp: all_state_pairs_def)
  have "\<exists>p. r_all_paths r (c, n) = Some p \<and> hd p = c \<and> last p = n \<and> is_walk (r_fsm_arcs r) p
            \<and> distinct p \<and> 2 \<le> length p"
  proof (cases "(c, n) \<in> r_fsm_arcs r")
    case True
    with run_direct_path[OF run True] pr cn(1) show ?thesis by simp
  next
    case False
    from run_combination_path[OF run ord _ _ False] pr
    obtain p where p: "walk all_arcs n [c] = Some (Inr p)" "r_all_paths r (c, n) = Some p" by auto
    from walk_result[OF p(1) cn(1)] have w: "hd p = c" "last p = n" "follows all_arcs n p"
      "''ERROR'' \<notin> set p" "distinct p" "2 \<le> length p" by auto
    have "p \<noteq> []" using w(6) by auto
    from follows_is_walk[OF w(3) b a cn(2) this w(4)] p(2) w show ?thesis by simp
  qed
  then obtain p where p: "r_all_paths r (c, n) = Some p" "hd p = c" "last p = n"
    "is_walk (r_fsm_arcs r) p" "distinct p" "2 \<le> length p" by blast
  from all_shortest_paths_exists[OF fa p(4,2,3,5,6)]
  obtain ps where ps: "all_shortest_paths (r_fsm_arcs r) c n = Inr ps" by blast
  have "card ps = 1 \<longrightarrow>
          (\<forall>q. is_walk (r_fsm_arcs r) q \<and> hd q = c \<and> last q = n \<longrightarrow> length p \<le> length q)"
  proof (intro impI allI)
    fix q assume c1: "card ps = 1" and q: "is_walk (r_fsm_arcs r) q \<and> hd q = c \<and> last q = n"
    have "(c, n) \<in> set (sorted_list_of_set (all_state_pairs all_arcs - r_blocked_transitions r))"
      using pr finite_all_state_pairs[OF fin] by simp
    with check_loop_Inr[OF study_Inr(5)[OF run]]
    obtain res where "check_pair (r_fsm_arcs r) (r_combination_paths r) (r_all_paths r) (c, n) = Inr res"
      by blast
    with check_pair_unique(2)[where ap = "r_all_paths r" and comb = "r_combination_paths r", OF ps c1 p(1)]
    have "ps = {p}" by auto
    then have "p \<in> ps" by simp
    from shortest_minimal[OF ps this] q show "length p \<le> length q" by simp
  qed
  with p ps show ?thesis by blast
qed

theorem canonical_path_is_walk_witness:
  "run_completes t_three [(''A'', ''C''), (''C'', ''A'')] \<and>
   finite (dom t_three) \<and> (''A'', ''C'') \<in> all_state_pairs t_three \<and>
   canonical_path t_three [(''A'', ''C''), (''C'', ''A'')] (''A'', ''C'') = Some [''A'', ''B'', ''C''] \<and>
   is_walk {(''A'', ''B''), (''B'', ''C''), (''B'', ''A''), (''C'', ''B'')} [''A'', ''B'', ''C''] \<and>
   all_shortest_paths {(''A'', ''B''), (''B'', ''C''), (''B'', ''A''), (''C'', ''B'')} ''A'' ''C''
     = Inr {[''A'', ''B'', ''C'']}"
proof -
  from study_three obtain r where r: "study t_three [(''A'', ''C''), (''C'', ''A'')] = Some (Inr r)"
    "r_fsm_arcs r = {(''A'', ''B''), (''B'', ''C''), (''B'', ''A''), (''C'', ''B'')}"
    "r_blocked_transitions r = {}"
    "r_all_paths r = all_paths [(''A'', ''C'') \<mapsto> [''A'', ''B'', ''C''], (''C'', ''A'') \<mapsto> [''C'', ''B'', ''A'']]
                       {(''A'', ''B''), (''B'', ''C''), (''B'', ''A''), (''C'', ''B'')} {}"
    by fastforce
  have h2: "set [(''A'', ''C''), (''C'', ''A'')] =
              combination_pairs t_three (r_fsm_arcs r) (r_blocked_transitions r)"
    by (auto simp: r combination_pairs_def asp_three)
  have h3: "finite (dom t_three)" by (simp add: t_three_def finite_dom_map_of)
  have h4: "(''A'', ''C'') \<in> all_state_pairs t_three - r_blocked_transitions r"
    by (simp add: r asp_three)
  from canonical_path_is_walk[OF r(1) h2 h3 h4]
  obtain p ps where p: "r_all_paths r (''A'', ''C'') = Some p" "is_walk (r_fsm_arcs r) p"
    "all_shortest_paths (r_fsm_arcs r) ''A'' ''C'' = Inr ps" by blast
  have "r_all_paths r (''A'', ''C'') = Some [''A'', ''B'', ''C'']" by (simp add: r all_paths_def)
  with p have "p = [''A'', ''B'', ''C'']" by simp
  with p r h3 h4 sp_three_A_C show ?thesis
    by (simp add: run_completes_def canonical_path_def)
qed

theorem canonical_path_not_shortest_counterexample:
  "finite (dom t_tie) \<and> blocked_transitions t_tie = Inr {} \<and> fsm_arcs t_tie {} = Inr arcs_tie \<and>
   (''A'', ''D'') \<in> all_state_pairs t_tie \<and>
   run_completes t_tie [(''A'', ''D''), (''E'', ''D'')] \<and>
   canonical_path t_tie [(''A'', ''D''), (''E'', ''D'')] (''A'', ''D'') = Some [''A'', ''E'', ''F'', ''D''] \<and>
   is_walk arcs_tie [''A'', ''F'', ''D''] \<and>
   length [''A'', ''F'', ''D''] < length [''A'', ''E'', ''F'', ''D'']"
proof -
  from study_tie obtain r where r: "study t_tie [(''A'', ''D''), (''E'', ''D'')] = Some (Inr r)"
    "r_all_paths r =
       all_paths [(''A'', ''D'') \<mapsto> [''A'', ''E'', ''F'', ''D''], (''E'', ''D'') \<mapsto> [''E'', ''F'', ''D'']]
         arcs_tie {}"
    by fastforce
  have "r_all_paths r (''A'', ''D'') = Some [''A'', ''E'', ''F'', ''D'']"
    by (simp add: r(2) all_paths_def arcs_tie_def)
  moreover have "is_walk arcs_tie [''A'', ''F'', ''D'']" by (simp add: arcs_tie_def)
  moreover have "finite (dom t_tie)" by (simp add: t_tie_def finite_dom_map_of)
  ultimately show ?thesis using r(1) blocked_tie fsm_arcs_tie
    by (simp add: run_completes_def canonical_path_def asp_tie)
qed

subsection \<open>Pairs with several shortest paths\<close>

text \<open>
  Claim C6.  For a pair of distinct states with more than one shortest path, the check of
  the pair raises nothing: it returns the sorted list of all the tied shortest paths, each
  with the flag that says whether it is the pair's path (the script compares with
  \<^verbatim>\<open>combination_paths\<close>; a pair with a tie is no arc, so this is its path in
  \<^verbatim>\<open>all_paths\<close> too).  The loop of line 88 completes when no pair's check raises.  In a
  run that completes, the report holds this list for every pair of distinct states that is
  not blocked and has more than one shortest path.
\<close>

theorem ambiguity_reported:
  "(all_shortest_paths arcs c n = Inr ps \<longrightarrow> finite arcs \<longrightarrow> card ps \<noteq> 1 \<longrightarrow> c \<noteq> n \<longrightarrow>
      (\<exists>tied. check_pair arcs combination_paths (all_paths combination_paths arcs blocked) (c, n)
                  = Inr (Some tied) \<and>
               map fst tied = sorted_list_of_set ps \<and> set (map fst tied) = ps \<and> 2 \<le> card ps \<and>
               (\<forall>(p, selected) \<in> set tied.
                   selected \<longleftrightarrow> all_paths combination_paths arcs blocked (c, n) = Some p))) \<and>
   ((\<forall>cn \<in> set l. \<exists>res. check_pair arcs' combination_paths' all_paths_d cn = Inr res) \<longrightarrow>
      (\<exists>amb. check_loop arcs' combination_paths' all_paths_d l = Inr amb)) \<and>
   (study all_arcs order = Some (Inr r) \<longrightarrow> finite (dom all_arcs) \<longrightarrow>
    (c', n') \<in> all_state_pairs all_arcs - r_blocked_transitions r \<longrightarrow>
    all_shortest_paths (r_fsm_arcs r) c' n' = Inr ps' \<longrightarrow> card ps' \<noteq> 1 \<longrightarrow>
      (\<exists>tied. ((c', n'), tied) \<in> set (r_ambiguity r) \<and>
               map fst tied = sorted_list_of_set ps' \<and> set (map fst tied) = ps' \<and>
               (\<forall>(p, selected) \<in> set tied. selected \<longleftrightarrow> r_all_paths r (c', n') = Some p)))"
proof (intro conjI impI)
  assume a: "all_shortest_paths arcs c n = Inr ps" "finite arcs" "card ps \<noteq> 1" "c \<noteq> n"
  note r = check_pair_ambiguity(1)[OF a, where comb = combination_paths and blocked = blocked]
    check_pair_ambiguity(2,3)[OF a]
  let ?tied = "map (\<lambda>path. (path, all_paths combination_paths arcs blocked (c, n) = Some path))
                   (sorted_list_of_set ps)"
  have "map fst ?tied = sorted_list_of_set ps" by (simp add: comp_def)
  moreover have "set (map fst ?tied) = ps" using r(2) by (simp add: comp_def)
  moreover have "\<forall>(p, selected) \<in> set ?tied.
                   selected \<longleftrightarrow> all_paths combination_paths arcs blocked (c, n) = Some p"
    by auto
  ultimately show "\<exists>tied. check_pair arcs combination_paths (all_paths combination_paths arcs blocked) (c, n)
                  = Inr (Some tied) \<and>
               map fst tied = sorted_list_of_set ps \<and> set (map fst tied) = ps \<and> 2 \<le> card ps \<and>
               (\<forall>(p, selected) \<in> set tied.
                   selected \<longleftrightarrow> all_paths combination_paths arcs blocked (c, n) = Some p)"
    using r(1,3) by blast
next
  assume "\<forall>cn \<in> set l. \<exists>res. check_pair arcs' combination_paths' all_paths_d cn = Inr res"
  then show "\<exists>amb. check_loop arcs' combination_paths' all_paths_d l = Inr amb"
    by (rule check_loop_passes)
next
  assume run: "study all_arcs order = Some (Inr r)" and fin: "finite (dom all_arcs)"
    and pr: "(c', n') \<in> all_state_pairs all_arcs - r_blocked_transitions r"
    and sp: "all_shortest_paths (r_fsm_arcs r) c' n' = Inr ps'" and ca: "card ps' \<noteq> 1"
  note b = study_Inr(1)[OF run] and a = study_Inr(2)[OF run] and ap = study_Inr(4)[OF run]
  have fa: "finite (r_fsm_arcs r)" using finite_fsm_arcs[OF fin b a] .
  have cn: "c' \<noteq> n'" using pr by (auto simp: all_state_pairs_def)
  note t = check_pair_ambiguity(1)[OF sp fa ca cn, where comb = "r_combination_paths r"
      and blocked = "r_blocked_transitions r"]
    check_pair_ambiguity(2,3)[OF sp fa ca cn]
  let ?tied = "map (\<lambda>path. (path, r_all_paths r (c', n') = Some path)) (sorted_list_of_set ps')"
  have cp: "check_pair (r_fsm_arcs r) (r_combination_paths r) (r_all_paths r) (c', n') = Inr (Some ?tied)"
    using t(1) ap by simp
  have "(c', n') \<in> set (sorted_list_of_set (all_state_pairs all_arcs - r_blocked_transitions r))"
    using pr finite_all_state_pairs[OF fin] by simp
  with check_loop_Inr[OF study_Inr(5)[OF run]] cp
  have "((c', n'), ?tied) \<in> set (r_ambiguity r)" by fastforce
  moreover have "map fst ?tied = sorted_list_of_set ps'" by (simp add: comp_def)
  moreover have "set (map fst ?tied) = ps'" using t(2) by (simp add: comp_def)
  moreover have "\<forall>(p, selected) \<in> set ?tied. selected \<longleftrightarrow> r_all_paths r (c', n') = Some p"
    by auto
  ultimately show "\<exists>tied. ((c', n'), tied) \<in> set (r_ambiguity r) \<and>
               map fst tied = sorted_list_of_set ps' \<and> set (map fst tied) = ps' \<and>
               (\<forall>(p, selected) \<in> set tied. selected \<longleftrightarrow> r_all_paths r (c', n') = Some p)"
    by blast
qed

theorem ambiguity_reported_witness:
  "all_shortest_paths arcs_diamond ''A'' ''D'' = Inr {[''A'', ''B'', ''D''], [''A'', ''C'', ''D'']} \<and>
   finite arcs_diamond \<and> card {[''A'', ''B'', ''D''], [''A'', ''C'', ''D'']} \<noteq> 1 \<and> ''A'' \<noteq> ''D'' \<and>
   (\<exists>tied. check_pair arcs_diamond [(''A'', ''D'') \<mapsto> [''A'', ''B'', ''D'']]
              (all_paths [(''A'', ''D'') \<mapsto> [''A'', ''B'', ''D'']] arcs_diamond {}) (''A'', ''D'')
                = Inr (Some tied) \<and>
           ([''A'', ''B'', ''D''], True) \<in> set tied \<and> ([''A'', ''C'', ''D''], False) \<in> set tied) \<and>
   (\<exists>amb. check_loop arcs_diamond [(''A'', ''D'') \<mapsto> [''A'', ''B'', ''D'']]
              (all_paths [(''A'', ''D'') \<mapsto> [''A'', ''B'', ''D'']] arcs_diamond {}) [(''A'', ''D'')]
                = Inr amb) \<and>
   run_completes t_tie [(''A'', ''D''), (''E'', ''D'')] \<and> finite (dom t_tie) \<and>
   (''E'', ''D'') \<in> all_state_pairs t_tie \<and>
   all_shortest_paths arcs_tie ''E'' ''D'' = Inr {[''E'', ''F'', ''D''], [''E'', ''G'', ''D'']} \<and>
   (\<exists>r tied. study t_tie [(''A'', ''D''), (''E'', ''D'')] = Some (Inr r) \<and>
       ((''E'', ''D''), tied) \<in> set (r_ambiguity r) \<and>
       ([''E'', ''F'', ''D''], True) \<in> set tied \<and> ([''E'', ''G'', ''D''], False) \<in> set tied)"
proof -
  let ?comb = "[(''A'', ''D'') \<mapsto> [''A'', ''B'', ''D'']]"
  let ?ap = "all_paths ?comb arcs_diamond {}"
  have h2: "finite arcs_diamond" by (simp add: arcs_diamond_def)
  have h3: "card {[''A'', ''B'', ''D''], [''A'', ''C'', ''D'']} \<noteq> 1" by simp
  have h4: "''A'' \<noteq> ''D''" by simp
  have apv: "?ap (''A'', ''D'') = Some [''A'', ''B'', ''D'']"
    by (simp add: all_paths_def arcs_diamond_def)
  have hl: "\<forall>cn \<in> set [(''A'', ''D'')]. \<exists>res. check_pair arcs_diamond ?comb ?ap cn = Inr res"
    using check_pair_tied[OF sp_diamond, of ?comb ?ap] by simp
  from study_tie obtain r where r: "study t_tie [(''A'', ''D''), (''E'', ''D'')] = Some (Inr r)"
    "r_fsm_arcs r = arcs_tie" "r_blocked_transitions r = {}"
    "r_all_paths r =
       all_paths [(''A'', ''D'') \<mapsto> [''A'', ''E'', ''F'', ''D''], (''E'', ''D'') \<mapsto> [''E'', ''F'', ''D'']]
         arcs_tie {}"
    by fastforce
  have g2: "finite (dom t_tie)" by (simp add: t_tie_def finite_dom_map_of)
  have g3: "(''E'', ''D'') \<in> all_state_pairs t_tie - r_blocked_transitions r"
    by (simp add: r asp_tie)
  have g4: "all_shortest_paths (r_fsm_arcs r) ''E'' ''D'' = Inr {[''E'', ''F'', ''D''], [''E'', ''G'', ''D'']}"
    using sp_tie_E_D by (simp add: r)
  have g5: "card {[''E'', ''F'', ''D''], [''E'', ''G'', ''D'']} \<noteq> 1" by simp
  have rap: "r_all_paths r (''E'', ''D'') = Some [''E'', ''F'', ''D'']"
    by (simp add: r(4) all_paths_def arcs_tie_def)
  note th = ambiguity_reported[where arcs = arcs_diamond and c = "''A''" and n = "''D''"
      and ps = "{[''A'', ''B'', ''D''], [''A'', ''C'', ''D'']}" and combination_paths = ?comb
      and blocked = "{}" and l = "[(''A'', ''D'')]" and arcs' = arcs_diamond
      and combination_paths' = ?comb and all_paths_d = ?ap
      and all_arcs = t_tie and order = "[(''A'', ''D''), (''E'', ''D'')]" and r = r
      and c' = "''E''" and n' = "''D''" and ps' = "{[''E'', ''F'', ''D''], [''E'', ''G'', ''D'']}"]
  note th1 = th[THEN conjunct1, rule_format, OF sp_diamond h2 h3 h4]
  note th2 = th[THEN conjunct2, THEN conjunct1, THEN mp, OF hl]
  note th3 = th[THEN conjunct2, THEN conjunct2, rule_format, OF r(1) g2 g3 g4 g5]
  from th1 obtain tied where t:
    "check_pair arcs_diamond ?comb ?ap (''A'', ''D'') = Inr (Some tied)"
    "set (map fst tied) = {[''A'', ''B'', ''D''], [''A'', ''C'', ''D'']}"
    "\<forall>(p, selected) \<in> set tied. selected \<longleftrightarrow> ?ap (''A'', ''D'') = Some p"
    by (elim exE conjE)
  have c1: "([''A'', ''B'', ''D''], True) \<in> set tied \<and> ([''A'', ''C'', ''D''], False) \<in> set tied"
    by (rule tied_flags[OF t(2,3) apv]) simp
  have e1: "\<exists>tied. check_pair arcs_diamond ?comb ?ap (''A'', ''D'') = Inr (Some tied) \<and>
           ([''A'', ''B'', ''D''], True) \<in> set tied \<and> ([''A'', ''C'', ''D''], False) \<in> set tied"
    using t(1) c1 by (intro exI[of _ tied]) simp
  from th3 obtain tied' where t':
    "((''E'', ''D''), tied') \<in> set (r_ambiguity r)"
    "set (map fst tied') = {[''E'', ''F'', ''D''], [''E'', ''G'', ''D'']}"
    "\<forall>(p, selected) \<in> set tied'. selected \<longleftrightarrow> r_all_paths r (''E'', ''D'') = Some p"
    by (elim exE conjE)
  have c3: "([''E'', ''F'', ''D''], True) \<in> set tied' \<and> ([''E'', ''G'', ''D''], False) \<in> set tied'"
    by (rule tied_flags[OF t'(2,3) rap]) simp
  have e3: "\<exists>r tied. study t_tie [(''A'', ''D''), (''E'', ''D'')] = Some (Inr r) \<and>
       ((''E'', ''D''), tied) \<in> set (r_ambiguity r) \<and>
       ([''E'', ''F'', ''D''], True) \<in> set tied \<and> ([''E'', ''G'', ''D''], False) \<in> set tied"
    using r(1) t'(1) c3 by (intro exI[of _ r] exI[of _ tied']) simp
  have rc: "run_completes t_tie [(''A'', ''D''), (''E'', ''D'')]"
    using r(1) by (simp add: run_completes_def)
  have g3': "(''E'', ''D'') \<in> all_state_pairs t_tie" by (simp add: asp_tie)
  show ?thesis
    by (intro conjI) (fact sp_diamond h2 h3 h4 e1 th2 rc g2 g3' sp_tie_E_D e3)+
qed

subsection \<open>The unwind study\<close>

text \<open>
  Claim C7.  Every combination path \<open>p\<close> has its entry in the unwind study, with one
  result for each state strictly between its first and its last: the path of
  \<^verbatim>\<open>all_paths\<close> from that state to the first state of \<open>p\<close> when there is one, the mark
  \<open>Unrecoverable\<close> otherwise.  The study is a function of the two dictionaries: it raises
  nothing and changes nothing.
\<close>

theorem unwind_complete:
  assumes "finite (ran combination_paths)" and "p \<in> ran combination_paths"
    and "0 < i" and "Suc i < length p"
  shows "\<exists>us. (p, us) \<in> set (unwind_study combination_paths all_paths_d) \<and>
              us = unwind all_paths_d p \<and> length us = length p - 2 \<and>
              us ! (i - 1) = (case all_paths_d (p ! i, p ! 0) of
                                None \<Rightarrow> Unrecoverable (p ! i)
                              | Some err_path \<Rightarrow> Unwind err_path)"
proof -
  have m: "(p, unwind all_paths_d p) \<in> set (unwind_study combination_paths all_paths_d)"
    using assms(1,2) by (simp add: unwind_study_def)
  have l: "length (unwind all_paths_d p) = length p - 2" by (simp add: unwind_def)
  have pne: "p \<noteq> []" using assms(4) by auto
  have "i - 1 < length (butlast (tl p))" using assms(3,4) by simp
  then have "unwind all_paths_d p ! (i - 1) =
      (case all_paths_d (butlast (tl p) ! (i - 1), hd p) of
         None \<Rightarrow> Unrecoverable (butlast (tl p) ! (i - 1)) | Some err_path \<Rightarrow> Unwind err_path)"
    by (simp add: unwind_def split: option.splits)
  moreover have "butlast (tl p) ! (i - 1) = p ! i"
    using assms(3,4) by (simp add: nth_butlast nth_tl)
  moreover have "hd p = p ! 0" using pne by (simp add: hd_conv_nth)
  ultimately show ?thesis using m l by (simp split: option.splits)
qed

theorem unwind_complete_witness:
  "finite (ran [(''A'', ''C'') \<mapsto> [''A'', ''B'', ''C'']]) \<and>
   [''A'', ''B'', ''C''] \<in> ran [(''A'', ''C'') \<mapsto> [''A'', ''B'', ''C'']] \<and>
   (0::nat) < 1 \<and> Suc 1 < length [''A'', ''B'', ''C''] \<and>
   ([''A'', ''B'', ''C''], [Unwind [''B'', ''A'']])
      \<in> set (unwind_study [(''A'', ''C'') \<mapsto> [''A'', ''B'', ''C'']] [(''B'', ''A'') \<mapsto> [''B'', ''A'']]) \<and>
   unwind Map.empty [''A'', ''B'', ''C''] = [Unrecoverable ''B'']"
proof -
  have h1: "finite (ran [(''A'', ''C'') \<mapsto> [''A'', ''B'', ''C'']])" by simp
  have h2: "[''A'', ''B'', ''C''] \<in> ran [(''A'', ''C'') \<mapsto> [''A'', ''B'', ''C'']]" by simp
  have h3: "(0::nat) < 1" by simp
  have h4: "Suc 1 < length [''A'', ''B'', ''C'']" by simp
  have u: "unwind [(''B'', ''A'') \<mapsto> [''B'', ''A'']] [''A'', ''B'', ''C''] = [Unwind [''B'', ''A'']]"
    by (simp add: unwind_def)
  have v: "unwind Map.empty [''A'', ''B'', ''C''] = [Unrecoverable ''B'']"
    by (simp add: unwind_def)
  from unwind_complete[OF h1 h2 h3 h4, of "[(''B'', ''A'') \<mapsto> [''B'', ''A'']]"] u v h1 h2 h3 h4
  show ?thesis by simp
qed

subsection \<open>A table with a missing pair\<close>



subsection \<open>A pair that is an arc\<close>

text \<open>
  Claim C9.  In a run that completes, a pair of distinct states that is not blocked and is
  an arc of the graph has the path \<open>[c, n]\<close>, whatever its own entry in the table is; the
  loop over the combination pairs does not meet it and \<^verbatim>\<open>combination_paths\<close> has no path
  for it.
\<close>

theorem arc_pair_is_direct:
  assumes "study all_arcs order = Some (Inr r)"
    and "set order = combination_pairs all_arcs (r_fsm_arcs r) (r_blocked_transitions r)"
    and "(c, n) \<in> all_state_pairs all_arcs - r_blocked_transitions r"
    and "(c, n) \<in> r_fsm_arcs r"
  shows "r_all_paths r (c, n) = Some [c, n] \<and> (c, n) \<notin> set order
           \<and> r_combination_paths r (c, n) = None"
proof -
  have no: "(c, n) \<notin> set order" using assms(2,4) by (simp add: combination_pairs_def)
  with combination_loop_Inr[OF study_Inr(3)[OF assms(1)]]
  have "r_combination_paths r (c, n) = None" by simp
  with no run_direct_path[OF assms(1,4)] assms(3) show ?thesis by simp
qed

theorem arc_pair_is_direct_witness:
  "t_swap (''A'', ''B'') = Some ''C'' \<and> run_completes t_swap [] \<and>
   canonical_path t_swap [] (''A'', ''B'') = Some [''A'', ''B'']"
proof -
  from study_swap obtain r where r: "study t_swap [] = Some (Inr r)"
    "r_fsm_arcs r = {(''A'', ''B''), (''A'', ''C''), (''B'', ''A''), (''B'', ''C''), (''C'', ''A''), (''C'', ''B'')}"
    "r_blocked_transitions r = {}"
    by fastforce
  have h2: "set [] = combination_pairs t_swap (r_fsm_arcs r) (r_blocked_transitions r)"
    by (simp add: r combination_pairs_def asp_swap)
  have h3: "(''A'', ''B'') \<in> all_state_pairs t_swap - r_blocked_transitions r"
    by (simp add: r asp_swap)
  have h4: "(''A'', ''B'') \<in> r_fsm_arcs r" by (simp add: r)
  have "t_swap (''A'', ''B'') = Some ''C''" by (simp add: t_swap_def)
  with arc_pair_is_direct[OF r(1) h2 h3 h4] r(1) show ?thesis
    by (simp add: run_completes_def canonical_path_def)
qed

subsection \<open>The arcs of a driver\<close>

text \<open>
  Claim C10.  The two sets the script prints for the arcs of the mlx5 driver are the
  driver's arcs without the arcs of the table, and the arcs of the table without the
  driver's; both are empty exactly when the driver's arcs are the arcs of the table.  The
  result is the pair of these sets and nothing else.
\<close>

theorem mlx5_report_conformance:
  "mlx5_report mlx5_arcs arcs = (mlx5_arcs - arcs, arcs - mlx5_arcs) \<and>
   (fst (mlx5_report mlx5_arcs arcs) \<union> snd (mlx5_report mlx5_arcs arcs) = {}
      \<longleftrightarrow> mlx5_arcs = arcs)"
  by (auto simp: mlx5_report_def)

end
